theory Spec2Isabelle
  imports Main
begin

section \<open>Data model of retool.ts and config.ts\<close>

text \<open>
  JavaScript strings are modelled as \<^typ>\<open>string\<close>: one \<^typ>\<open>char\<close> stands for one
  code unit, so \<^const>\<open>length\<close> is the \<^verbatim>\<open>.length\<close> of the source and
  \<^const>\<open>take\<close>/\<^const>\<open>drop\<close> are its \<^verbatim>\<open>slice\<close>. Numbers that hold
  timestamps and counters are \<^typ>\<open>int\<close>. The request body is decoded JSON that is
  never validated, so a message role is any string, not only the three of the
  TypeScript type.
\<close>

record ChatMessage =
  role :: string
  content :: string

record ChatCompletionRequest =
  model :: string
  messages :: "ChatMessage list"
  stream :: bool

subsection \<open>Streaming payloads\<close>

text \<open>
  The objects handed to \<^verbatim>\<open>JSON.stringify\<close> by the two generators. The built-in
  serialiser itself is a parameter \<open>stringify\<close> of the generators.
\<close>

datatype delta = DeltaRole string | DeltaContent string | DeltaEmpty

record StreamChunk =
  c_id :: string
  c_object :: string
  c_created :: int
  c_model :: string
  c_delta :: delta
  c_index :: nat
  c_finish_reason :: "string option"

datatype sse_payload = Chunk StreamChunk | ErrorObj string nat

subsection \<open>Accounts, agents and the model registry\<close>

text \<open>
  An agent as the upstream returns it; only the three fields the adapter reads are kept.
  \<open>ag_model\<close> is \<^verbatim>\<open>ag.data?.model\<close>: \<open>None\<close> when \<^verbatim>\<open>data\<close> or
  \<^verbatim>\<open>model\<close> is missing or null.
\<close>

record Agent =
  ag_id :: string
  ag_name :: string
  ag_model :: "string option"

record RetoolAccount =
  domain_name :: string
  x_xsrf_token :: string
  accessToken :: string
  is_valid :: bool
  last_used :: int
  error_count :: int
  agents :: "Agent list"
  selected_agent_id :: "string option"

record ModelRecord =
  m_id :: string
  m_name :: string
  m_model_name :: string
  m_owned_by :: string
  m_agents :: "string list"

subsection \<open>Structured errors (config.ts)\<close>

datatype RetoolOperation = agent_query | thread_create | message_send | message_get

record RetoolError =
  operation :: RetoolOperation
  account :: string
  statusCode :: "nat option"
  message :: string
  timestamp :: string

text \<open>\<open>ts\<close> is the value of \<^verbatim>\<open>new Date().toISOString()\<close> at the call.\<close>

definition createRetoolError ::
  "RetoolOperation \<Rightarrow> string \<Rightarrow> string \<Rightarrow> nat option \<Rightarrow> string \<Rightarrow> RetoolError" where
  "createRetoolError opn acc msg status ts =
     \<lparr> operation = opn, account = acc, statusCode = status, message = msg, timestamp = ts \<rparr>"

datatype ErrorType = configuration_error | upstream_error | auth_error

record ErrorBody =
  err_message :: string
  err_type :: ErrorType
  attempts :: "nat option"
  details :: "RetoolError list option"

record ErrorResponse =
  error :: ErrorBody

definition createErrorResponse :: "nat \<Rightarrow> RetoolError list \<Rightarrow> ErrorResponse" where
  "createErrorResponse n errors =
     \<lparr> error = \<lparr> err_message = ''All Retool accounts failed'', err_type = upstream_error,
                 attempts = Some n, details = Some errors \<rparr> \<rparr>"

subsection \<open>Upstream replies and exceptions\<close>

text \<open>
  What one \<^verbatim>\<open>fetch\<close> gives back: a reply with its HTTP status and the value the
  caller reads out of the JSON body, or an exception (a network failure, or a body that
  cannot be read) with its message. The body of a reply that is not \<^verbatim>\<open>ok\<close> is never
  looked at.
\<close>

datatype 'a fetched = Replied nat 'a | Threw string

definition ok :: "nat \<Rightarrow> bool" where
  "ok status = (200 \<le> status \<and> status \<le> 299)"

datatype exn = RetoolApiError RetoolError | OtherError string

text \<open>
  The log of a run: its status and, for each trace entry, the text at
  \<^verbatim>\<open>entry.data.data.content\<close>.
\<close>

record LogData =
  log_status :: string
  trace :: "string list"

subsection \<open>HTTP responses of the adapter\<close>

record ChatCompletion =
  cc_id :: string
  cc_object :: string
  cc_created :: int
  cc_model :: string
  cc_index :: nat
  cc_role :: string
  cc_content :: string
  cc_finish_reason :: string
  cc_usage :: "nat \<times> nat \<times> nat"

datatype json_body =
    SimpleError string
  | CompletionBody ChatCompletion
  | Failure ErrorResponse

datatype Response = JsonResponse json_body nat | SseResponse "string list" nat

definition jsonResponse :: "json_body \<Rightarrow> nat \<Rightarrow> Response" where
  "jsonResponse obj status = JsonResponse obj status"

definition sseStream :: "string list \<Rightarrow> Response" where
  "sseStream gen = SseResponse gen 200"

section \<open>Retool API helpers\<close>

text \<open>
  Each helper takes the outcome \<open>r\<close> of its one \<^verbatim>\<open>fetch\<close>. The request it sends
  (URL, headers, body) does not influence what it returns and is left out, so the
  arguments that only go into the request are unused.
\<close>

definition retoolQueryAgents ::
  "RetoolAccount \<Rightarrow> Agent list fetched \<Rightarrow> string \<Rightarrow> exn + Agent list" where
  "retoolQueryAgents acc r ts =
     (case r of
        Threw m \<Rightarrow> Inl (OtherError m)
      | Replied status ags \<Rightarrow>
          if \<not> ok status
          then Inl (RetoolApiError
                 (createRetoolError agent_query (domain_name acc) ''Agent query failed''
                    (Some status) ts))
          else Inr ags)"

definition retoolGetThreadId ::
  "RetoolAccount \<Rightarrow> string option \<Rightarrow> string fetched \<Rightarrow> string \<Rightarrow> exn + string" where
  "retoolGetThreadId acc agentId r ts =
     (case r of
        Threw m \<Rightarrow> Inl (OtherError m)
      | Replied status tid \<Rightarrow>
          if \<not> ok status
          then Inl (RetoolApiError
                 (createRetoolError thread_create (domain_name acc) ''Create thread failed''
                    (Some status) ts))
          else Inr tid)"

definition retoolSendMessage ::
  "RetoolAccount \<Rightarrow> string option \<Rightarrow> string \<Rightarrow> string \<Rightarrow> string fetched \<Rightarrow> string
     \<Rightarrow> exn + string" where
  "retoolSendMessage acc agentId threadId txt r ts =
     (case r of
        Threw m \<Rightarrow> Inl (OtherError m)
      | Replied status runId \<Rightarrow>
          if \<not> ok status
          then Inl (RetoolApiError
                 (createRetoolError message_send (domain_name acc) ''Send message failed''
                    (Some status) ts))
          else Inr runId)"

subsection \<open>retoolGetMessage\<close>

text \<open>
  One pass through the body of the \<^verbatim>\<open>while\<close> loop, given the outcome of its
  \<^verbatim>\<open>fetch\<close>: \<open>Some\<close> when the pass leaves the function (by \<^verbatim>\<open>throw\<close> or
  \<^verbatim>\<open>return\<close>), \<open>None\<close> when it goes on to the sleep of
  \<^verbatim>\<open>setTimeout(r, 1_000)\<close> and the next pass. Reading the last entry of an empty
  trace is a \<^verbatim>\<open>TypeError\<close> in JavaScript.
\<close>

definition poll_step :: "RetoolAccount \<Rightarrow> LogData fetched \<Rightarrow> string \<Rightarrow> (exn + string) option" where
  "poll_step acc r ts =
     (case r of
        Threw m \<Rightarrow> Some (Inl (OtherError m))
      | Replied status data \<Rightarrow>
          if \<not> ok status
          then Some (Inl (RetoolApiError
                 (createRetoolError message_get (domain_name acc) ''Get log failed''
                    (Some status) ts)))
          else if log_status data = ''COMPLETED''
          then (case trace data of
                  [] \<Rightarrow> Some (Inl (OtherError ''TypeError''))
                | _ # _ \<Rightarrow> Some (Inr (last (trace data))))
          else None)"

text \<open>
  Awaiting the \<^verbatim>\<open>fetch\<close> of one poll either settles after some milliseconds with
  an outcome, or never settles.
\<close>

datatype 'a awaited = Settled nat 'a | Hangs

text \<open>
  The loop. Time is counted in milliseconds and passes only while the function awaits:
  \<open>now\<close> is what \<^verbatim>\<open>Date.now()\<close> returns at the loop test of pass \<open>k\<close>,
  \<open>fetch k\<close> is what awaiting the request of pass \<open>k\<close> gives, and the timer of
  \<^verbatim>\<open>setTimeout(r, 1_000)\<close> fires \<open>overshoot k\<close> milliseconds after the 1000 it was
  set for. \<open>None\<close> is a call that never returns, which happens only when a
  \<^verbatim>\<open>fetch\<close> never settles.
\<close>

function poll_loop ::
  "RetoolAccount \<Rightarrow> (nat \<Rightarrow> LogData fetched awaited) \<Rightarrow> (nat \<Rightarrow> nat) \<Rightarrow> string \<Rightarrow> int \<Rightarrow> int
     \<Rightarrow> nat \<Rightarrow> (exn + string) option" where
  "poll_loop acc fetch overshoot ts deadline now k =
     (if now < deadline then
        (case fetch k of
           Hangs \<Rightarrow> None
         | Settled took r \<Rightarrow>
             (case poll_step acc r ts of
                Some res \<Rightarrow> Some res
              | None \<Rightarrow>
                  poll_loop acc fetch overshoot ts deadline
                    (now + int took + 1000 + int (overshoot k)) (Suc k)))
      else Some (Inl (RetoolApiError
             (createRetoolError message_get (domain_name acc)
                ''Timeout waiting for completion'' None ts))))"
  by pat_completeness auto
termination
  by (relation "measure (\<lambda>(_, _, _, _, deadline, now, _). nat (deadline - now))") auto

declare poll_loop.simps [simp del]

text \<open>
  \<open>start\<close> is the reading of \<^verbatim>\<open>Date.now()\<close> that fixes the deadline; the first loop
  test follows it with no await in between.
\<close>

definition retoolGetMessage ::
  "RetoolAccount \<Rightarrow> string option \<Rightarrow> string \<Rightarrow> int \<Rightarrow> int \<Rightarrow> (nat \<Rightarrow> LogData fetched awaited)
     \<Rightarrow> (nat \<Rightarrow> nat) \<Rightarrow> string \<Rightarrow> (exn + string) option" where
  "retoolGetMessage acc agentId runId timeoutMs start fetch overshoot ts =
     (let deadline = start + timeoutMs
      in poll_loop acc fetch overshoot ts deadline start 0)"

text \<open>The default of the parameter \<^verbatim>\<open>timeoutMs\<close>.\<close>

definition default_timeoutMs :: int where
  "default_timeoutMs = 300000"

section \<open>Utility logic\<close>

subsection \<open>formatMessagesForRetool\<close>

text \<open>The string appended to \<open>out\<close> by one iteration of the \<^verbatim>\<open>for\<close> loop.\<close>

definition format_turn :: "ChatMessage \<Rightarrow> string" where
  "format_turn m =
     (let r = (if role m = ''user'' then ''Human'' else ''Assistant'')
      in ''\<newline>\<newline>'' @ r @ '': '' @ content m)"

text \<open>The loop itself: \<open>out\<close> starts empty and grows by one turn per message.\<close>

definition format_loop :: "ChatMessage list \<Rightarrow> string" where
  "format_loop ms = foldl (\<lambda>out m. out @ format_turn m) [] ms"

definition formatMessagesForRetool :: "ChatMessage list \<Rightarrow> string" where
  "formatMessagesForRetool ms =
     (let out = format_loop ms
      in if ms \<noteq> [] \<and> role (last ms) = ''assistant''
         then out @ ''\<newline>\<newline>Human: ''
         else out)"

subsection \<open>retoolStreamGenerator and errorStreamGenerator\<close>

definition slice :: "string \<Rightarrow> nat \<Rightarrow> nat \<Rightarrow> string" where
  "slice s a b = take (b - a) (drop a s)"

text \<open>
  The \<^verbatim>\<open>for (let i = 0; i < fullMessage.length; i += chunkSize)\<close> loop, returning
  the strings it yields. The 10 ms pause between two yields has no effect on them.
\<close>

definition chunkSize :: nat where
  "chunkSize = 5"

function content_loop ::
  "(sse_payload \<Rightarrow> string) \<Rightarrow> string \<Rightarrow> int \<Rightarrow> string \<Rightarrow> string \<Rightarrow> nat \<Rightarrow> string list" where
  "content_loop stringify streamId created modelId fullMessage i =
     (if i < length fullMessage then
        (''data: ''
           @ stringify
               (Chunk \<lparr> c_id = streamId, c_object = ''chat.completion.chunk'',
                        c_created = created, c_model = modelId,
                        c_delta = DeltaContent (slice fullMessage i (i + chunkSize)),
                        c_index = 0, c_finish_reason = None \<rparr>)
           @ ''\<newline>\<newline>'')
        # content_loop stringify streamId created modelId fullMessage (i + chunkSize)
      else [])"
  by pat_completeness auto
termination
  by (relation "measure (\<lambda>(_, _, _, _, fullMessage, i). length fullMessage - i)")
    (auto simp: chunkSize_def)

declare content_loop.simps [simp del]

text \<open>
  \<open>streamId\<close> is the value of \<^verbatim>\<open>crypto.randomUUID()\<close> and \<open>created\<close> that of
  \<^verbatim>\<open>Math.floor(Date.now() / 1000)\<close>, both read once before the first yield.
\<close>

definition retoolStreamGenerator ::
  "(sse_payload \<Rightarrow> string) \<Rightarrow> string \<Rightarrow> int \<Rightarrow> string \<Rightarrow> string \<Rightarrow> string list" where
  "retoolStreamGenerator stringify streamId created fullMessage modelId =
     (let header = stringify
            (Chunk \<lparr> c_id = streamId, c_object = ''chat.completion.chunk'',
                     c_created = created, c_model = modelId,
                     c_delta = DeltaRole ''assistant'', c_index = 0,
                     c_finish_reason = None \<rparr>);
          done = stringify
            (Chunk \<lparr> c_id = streamId, c_object = ''chat.completion.chunk'',
                     c_created = created, c_model = modelId,
                     c_delta = DeltaEmpty, c_index = 0,
                     c_finish_reason = Some ''stop'' \<rparr>)
      in [''data: '' @ header @ ''\<newline>\<newline>'']
         @ content_loop stringify streamId created modelId fullMessage 0
         @ [''data: '' @ done @ ''\<newline>\<newline>data: [DONE]\<newline>\<newline>''])"

definition errorStreamGenerator :: "(sse_payload \<Rightarrow> string) \<Rightarrow> string \<Rightarrow> nat \<Rightarrow> string list" where
  "errorStreamGenerator stringify msg code =
     [''data: '' @ stringify (ErrorObj msg code) @ ''\<newline>\<newline>'',
      ''data: [DONE]\<newline>\<newline>'']"

subsection \<open>getBestRetoolAccount\<close>

text \<open>
  The callback of \<^verbatim>\<open>RETOOL_ACCOUNTS.filter\<close>: whether the account is kept, and the
  account as the callback leaves it (a kept account has its \<^verbatim>\<open>selected_agent_id\<close>
  overwritten).
\<close>

definition filter_callback :: "string list \<Rightarrow> int \<Rightarrow> RetoolAccount \<Rightarrow> bool \<times> RetoolAccount" where
  "filter_callback allowed now acc =
     (if \<not> is_valid acc then (False, acc)
      else if error_count acc \<ge> 3 \<and> now - last_used acc < 300000 then (False, acc)
      else (case find (\<lambda>a. ag_id a \<in> set allowed) (agents acc) of
              None \<Rightarrow> (False, acc)
            | Some agent \<Rightarrow> (True, acc\<lparr>selected_agent_id := Some (ag_id agent)\<rparr>)))"

text \<open>
  Accounts are objects shared between the registry array and every array derived from
  it, so an account is named by its index in \<^verbatim>\<open>RETOOL_ACCOUNTS\<close>. The candidates
  are the indices the callback keeps, in registry order.
\<close>

definition candidates :: "string list \<Rightarrow> int \<Rightarrow> RetoolAccount list \<Rightarrow> nat list" where
  "candidates allowed now accs =
     filter (\<lambda>i. fst (filter_callback allowed now (accs ! i))) [0..<length accs]"

text \<open>
  The comparator handed to \<^verbatim>\<open>sort\<close>; \<^verbatim>\<open>x || y\<close> is \<open>x\<close> unless \<open>x\<close> is zero.
\<close>

definition compare_accounts :: "RetoolAccount \<Rightarrow> RetoolAccount \<Rightarrow> int" where
  "compare_accounts a b =
     (if last_used a - last_used b \<noteq> 0 then last_used a - last_used b
      else error_count a - error_count b)"

text \<open>
  \<^verbatim>\<open>Array.prototype.sort\<close> is a stable sort by the comparator; for a comparator that
  is a total preorder every stable sort returns the same array, here computed by
  insertion.
\<close>

fun insert_by :: "('a \<Rightarrow> 'a \<Rightarrow> int) \<Rightarrow> 'a \<Rightarrow> 'a list \<Rightarrow> 'a list" where
  "insert_by cmp x [] = [x]"
| "insert_by cmp x (y # ys) = (if cmp x y \<le> 0 then x # y # ys else y # insert_by cmp x ys)"

definition sort_by :: "('a \<Rightarrow> 'a \<Rightarrow> int) \<Rightarrow> 'a list \<Rightarrow> 'a list" where
  "sort_by cmp xs = foldr (insert_by cmp) xs []"

text \<open>
  The result is the chosen account (its index) or \<open>None\<close> for \<^verbatim>\<open>undefined\<close>,
  together with the registry as the call leaves it. \<open>now\<close> is the value of
  \<^verbatim>\<open>Date.now()\<close> read on entry.
\<close>

definition getBestRetoolAccount ::
  "ModelRecord list \<Rightarrow> RetoolAccount list \<Rightarrow> string \<Rightarrow> int \<Rightarrow> nat option \<times> RetoolAccount list" where
  "getBestRetoolAccount models accs modelId now =
     (case find (\<lambda>m. m_id m = modelId) models of
        None \<Rightarrow> (None, accs)
      | Some record \<Rightarrow>
          (let allowed = m_agents record;
               cands = candidates allowed now accs;
               accs1 = map (\<lambda>acc. snd (filter_callback allowed now acc)) accs
           in case sort_by (\<lambda>i j. compare_accounts (accs1 ! i) (accs1 ! j)) cands of
                [] \<Rightarrow> (None, accs1)
              | chosen # _ \<Rightarrow> (Some chosen, accs1[chosen := (accs1 ! chosen)\<lparr>last_used := now\<rparr>])))"

section \<open>Model discovery\<close>

fun split_on :: "char \<Rightarrow> string \<Rightarrow> string list" where
  "split_on c [] = [[]]"
| "split_on c (x # xs) =
     (if x = c then [] # split_on c xs
      else (case split_on c xs of
              [] \<Rightarrow> [[x]]
            | w # ws \<Rightarrow> (x # w) # ws))"

fun join_with :: "string \<Rightarrow> string list \<Rightarrow> string" where
  "join_with sep [] = []"
| "join_with sep [w] = w"
| "join_with sep (w # v # ws) = w @ sep @ join_with sep (v # ws)"

definition to_lower_char :: "char \<Rightarrow> char" where
  "to_lower_char c =
     (let n = (of_char c :: nat)
      in if of_char CHR ''A'' \<le> n \<and> n \<le> of_char CHR ''Z'' then char_of (n + 32) else c)"

definition toLowerCase :: "string \<Rightarrow> string" where
  "toLowerCase s = map to_lower_char s"

fun starts_with :: "string \<Rightarrow> string \<Rightarrow> bool" where
  "starts_with s [] = True"
| "starts_with [] (y # ys) = False"
| "starts_with (x # xs) (y # ys) = (x = y \<and> starts_with xs ys)"

fun includes_str :: "string \<Rightarrow> string \<Rightarrow> bool" where
  "includes_str [] t = (t = [])"
| "includes_str (x # xs) t = (starts_with (x # xs) t \<or> includes_str xs t)"

definition full_name :: "Agent \<Rightarrow> string" where
  "full_name ag = (case ag_model ag of Some m \<Rightarrow> m | None \<Rightarrow> ''unknown'')"

definition series_of :: "string \<Rightarrow> string" where
  "series_of fullName = join_with ''-'' (take 3 (split_on CHR ''-'' fullName))"

text \<open>
  The body of the inner aggregation loop for one agent. The \<^verbatim>\<open>Map\<close> is a list of
  key/record pairs in insertion order with no key twice; \<^verbatim>\<open>rec.agents.push\<close> changes
  the record stored under the key.
\<close>

definition aggregate_step :: "(string \<times> ModelRecord) list \<Rightarrow> Agent \<Rightarrow> (string \<times> ModelRecord) list" where
  "aggregate_step mp ag =
     (let fullName = full_name ag;
          series = series_of fullName;
          mp1 = (case map_of mp series of
                   Some _ \<Rightarrow> mp
                 | None \<Rightarrow>
                     mp @ [(series,
                            \<lparr> m_id = series, m_name = ag_name ag, m_model_name = fullName,
                              m_owned_by = (if includes_str (toLowerCase fullName) ''claude''
                                            then ''anthropic'' else ''openai''),
                              m_agents = [] \<rparr>)])
      in map (\<lambda>(k, r). if k = series then (k, r\<lparr>m_agents := m_agents r @ [ag_id ag]\<rparr>)
                        else (k, r)) mp1)"

text \<open>
  The two nested loops over accounts and their agents, and \<^verbatim>\<open>[...map.values()]\<close>.
\<close>

definition aggregate :: "RetoolAccount list \<Rightarrow> ModelRecord list" where
  "aggregate accs = map snd (foldl aggregate_step [] (concat (map agents accs)))"

text \<open>
  The first loop, for one account: \<open>r\<close> is the outcome of its agent query.
\<close>

definition discover_account :: "RetoolAccount \<Rightarrow> Agent list fetched \<Rightarrow> string \<Rightarrow> RetoolAccount" where
  "discover_account acc r ts =
     (case retoolQueryAgents acc r ts of
        Inr ags \<Rightarrow> acc\<lparr>agents := ags\<rparr>
      | Inl err \<Rightarrow>
          (let acc1 = (case err of
                         RetoolApiError e \<Rightarrow>
                           if statusCode e = Some 401 \<or> statusCode e = Some 403
                           then acc\<lparr>is_valid := False\<rparr> else acc
                       | OtherError _ \<Rightarrow> acc)
           in acc1\<lparr>agents := []\<rparr>))"

text \<open>
  \<open>replies i\<close> is the outcome of the agent query of account \<open>i\<close>. The result is the
  registry and the catalogue (\<^verbatim>\<open>AVAILABLE_MODELS\<close>) after start-up.
\<close>

definition initializeRetoolEnvironment ::
  "RetoolAccount list \<Rightarrow> (nat \<Rightarrow> Agent list fetched) \<Rightarrow> string
     \<Rightarrow> RetoolAccount list \<times> ModelRecord list" where
  "initializeRetoolEnvironment accs replies ts =
     (let accs1 = map (\<lambda>i. discover_account (accs ! i) (replies i) ts) [0..<length accs]
      in (accs1, aggregate accs1))"

section \<open>Main request handler\<close>

text \<open>
  Everything one pass of the retry loop reads from outside: the clock at selection, the
  outcomes of thread creation and message sending, the clock at the start of polling with
  what the polls and the timers between them do, the time stamp put on an error, and the
  random id and the creation time (in seconds) of a successful response.
\<close>

record AttemptEnv =
  sel_now :: int
  thread_reply :: "string fetched"
  send_reply :: "string fetched"
  poll_start :: int
  poll_reply :: "nat \<Rightarrow> LogData fetched awaited"
  poll_overshoot :: "nat \<Rightarrow> nat"
  err_time :: string
  uuid :: string
  created_s :: int

text \<open>The three calls of the \<^verbatim>\<open>try\<close> block; the first exception ends it.\<close>

definition session ::
  "RetoolAccount \<Rightarrow> string option \<Rightarrow> string \<Rightarrow> AttemptEnv \<Rightarrow> (exn + string) option" where
  "session acc agentId formatted e =
     (case retoolGetThreadId acc agentId (thread_reply e) (err_time e) of
        Inl err \<Rightarrow> Some (Inl err)
      | Inr threadId \<Rightarrow>
          (case retoolSendMessage acc agentId threadId formatted (send_reply e) (err_time e) of
             Inl err \<Rightarrow> Some (Inl err)
           | Inr runId \<Rightarrow>
               retoolGetMessage acc agentId runId default_timeoutMs
                 (poll_start e) (poll_reply e) (poll_overshoot e) (err_time e)))"

text \<open>The \<^verbatim>\<open>catch\<close> block: the account as it leaves it, and the error it collects.\<close>

definition on_failure :: "RetoolAccount \<Rightarrow> exn \<Rightarrow> string \<Rightarrow> RetoolAccount \<times> RetoolError" where
  "on_failure acc err ts =
     (let acc1 = acc\<lparr>error_count := error_count acc + 1\<rparr>
      in case err of
           RetoolApiError e \<Rightarrow>
             (if statusCode e = Some 401 \<or> statusCode e = Some 403
              then acc1\<lparr>is_valid := False\<rparr> else acc1,
              e)
         | OtherError m \<Rightarrow>
             (acc1, createRetoolError message_send (domain_name acc) m None ts))"

definition success_response ::
  "(sse_payload \<Rightarrow> string) \<Rightarrow> ChatCompletionRequest \<Rightarrow> AttemptEnv \<Rightarrow> string \<Rightarrow> Response" where
  "success_response stringify body e responseTxt =
     (if stream body
      then sseStream (retoolStreamGenerator stringify (uuid e) (created_s e) responseTxt (model body))
      else jsonResponse
             (CompletionBody
                \<lparr> cc_id = ''chatcmpl-'' @ uuid e, cc_object = ''chat.completion'',
                  cc_created = created_s e, cc_model = model body, cc_index = 0,
                  cc_role = ''assistant'', cc_content = responseTxt,
                  cc_finish_reason = ''stop'', cc_usage = (0, 0, 0) \<rparr>)
             200)"

datatype loop_exit = Returned Response | Exhausted nat "RetoolError list"

text \<open>
  The \<^verbatim>\<open>for\<close> loop over \<^verbatim>\<open>attempt\<close>, with the state it carries:
  the registry, the collected errors and the attempt count. \<open>env attempt\<close> is what pass
  \<open>attempt\<close> reads from outside. The loop leaves either by a \<^verbatim>\<open>return\<close> of a
  successful response or at its end.
\<close>

function attempt_loop ::
  "(sse_payload \<Rightarrow> string) \<Rightarrow> ModelRecord list \<Rightarrow> ChatCompletionRequest \<Rightarrow> string
     \<Rightarrow> (nat \<Rightarrow> AttemptEnv) \<Rightarrow> nat \<Rightarrow> RetoolAccount list \<Rightarrow> RetoolError list \<Rightarrow> nat
     \<Rightarrow> (loop_exit \<times> RetoolAccount list) option" where
  "attempt_loop stringify models body formatted env attempt accs collectedErrors attemptCount =
     (if attempt < length accs then
        (case getBestRetoolAccount models accs (model body) (sel_now (env attempt)) of
           (None, accs1) \<Rightarrow> Some (Exhausted attemptCount collectedErrors, accs1)
         | (Some i, accs1) \<Rightarrow>
             (case session (accs1 ! i) (selected_agent_id (accs1 ! i)) formatted (env attempt) of
                None \<Rightarrow> None
              | Some (Inr responseTxt) \<Rightarrow>
                  Some (Returned (success_response stringify body (env attempt) responseTxt),
                        accs1)
              | Some (Inl err) \<Rightarrow>
                  (case on_failure (accs1 ! i) err (err_time (env attempt)) of
                     (acc', e) \<Rightarrow>
                       attempt_loop stringify models body formatted env (Suc attempt)
                         (accs1[i := acc']) (collectedErrors @ [e]) (Suc attemptCount))))
      else Some (Exhausted attemptCount collectedErrors, accs))"
  by pat_completeness auto
termination
  by (relation "measure (\<lambda>(_, _, _, _, _, attempt, accs, _, _). length accs - attempt)")
    (auto simp: getBestRetoolAccount_def Let_def split: option.splits list.splits)

text \<open>
  The branch \<^verbatim>\<open>POST /v1/chat/completions\<close> of \<^verbatim>\<open>handleRequest\<close>, from the
  point where the caller is authorised and the body is decoded. It returns the response
  and the registry as the request leaves it, or \<open>None\<close> when a poll never returns.
\<close>

definition handleRequest ::
  "(sse_payload \<Rightarrow> string) \<Rightarrow> ModelRecord list \<Rightarrow> RetoolAccount list \<Rightarrow> ChatCompletionRequest
     \<Rightarrow> (nat \<Rightarrow> AttemptEnv) \<Rightarrow> (Response \<times> RetoolAccount list) option" where
  "handleRequest stringify models accs body env =
     (if messages body = [] then
        Some (jsonResponse (SimpleError ''no messages supplied'') 400, accs)
      else if find (\<lambda>m. m_id m = model body) models = None then
        Some (jsonResponse
                (SimpleError (''model '' @ [CHR 0x27] @ model body @ [CHR 0x27] @ '' not found''))
                404,
              accs)
      else
        (let formatted = formatMessagesForRetool (messages body)
         in case attempt_loop stringify models body formatted env 0 accs [] 0 of
              None \<Rightarrow> None
            | Some (Returned resp, accs') \<Rightarrow> Some (resp, accs')
            | Some (Exhausted attemptCount collectedErrors, accs') \<Rightarrow>
                if stream body
                then Some (sseStream
                             (errorStreamGenerator stringify ''all retool attempts failed'' 503),
                           accs')
                else Some (jsonResponse
                             (Failure (createErrorResponse attemptCount collectedErrors)) 503,
                           accs')))"

section \<open>The process as a sequence of operations\<close>

text \<open>
  The module state, and the operations that write to the registry: start-up discovery,
  a chat-completion request, and a lone call of the selector. (The other routes of
  \<^verbatim>\<open>handleRequest\<close> do not touch the accounts.)
\<close>

record ServerState =
  RETOOL_ACCOUNTS :: "RetoolAccount list"
  AVAILABLE_MODELS :: "ModelRecord list"

datatype operation =
    OpStartup "nat \<Rightarrow> Agent list fetched" string
  | OpChat ChatCompletionRequest "nat \<Rightarrow> AttemptEnv"
  | OpSelect string int

fun apply_operation :: "(sse_payload \<Rightarrow> string) \<Rightarrow> operation \<Rightarrow> ServerState \<Rightarrow> ServerState option" where
  "apply_operation stringify (OpStartup replies ts) s =
     (case initializeRetoolEnvironment (RETOOL_ACCOUNTS s) replies ts of
        (accs, models) \<Rightarrow> Some \<lparr> RETOOL_ACCOUNTS = accs, AVAILABLE_MODELS = models \<rparr>)"
| "apply_operation stringify (OpChat body env) s =
     (case handleRequest stringify (AVAILABLE_MODELS s) (RETOOL_ACCOUNTS s) body env of
        None \<Rightarrow> None
      | Some (_, accs) \<Rightarrow> Some (s\<lparr>RETOOL_ACCOUNTS := accs\<rparr>))"
| "apply_operation stringify (OpSelect modelId now) s =
     Some (s\<lparr>RETOOL_ACCOUNTS :=
               snd (getBestRetoolAccount (AVAILABLE_MODELS s) (RETOOL_ACCOUNTS s) modelId now)\<rparr>)"

fun run_operations :: "(sse_payload \<Rightarrow> string) \<Rightarrow> operation list \<Rightarrow> ServerState \<Rightarrow> ServerState option" where
  "run_operations stringify [] s = Some s"
| "run_operations stringify (x # xs) s =
     (case apply_operation stringify x s of
        None \<Rightarrow> None
      | Some s' \<Rightarrow> run_operations stringify xs s')"

declare attempt_loop.simps [simp del]

section \<open>A registry to run the definitions on\<close>

definition example_agent :: "string \<Rightarrow> string \<Rightarrow> Agent" where
  "example_agent i m = \<lparr> ag_id = i, ag_name = ''Agent '' @ i, ag_model = Some m \<rparr>"

definition example_account :: "string \<Rightarrow> bool \<Rightarrow> int \<Rightarrow> int \<Rightarrow> Agent list \<Rightarrow> RetoolAccount" where
  "example_account d v lu ec ags =
     \<lparr> domain_name = d, x_xsrf_token = ''x'', accessToken = ''t'', is_valid = v,
       last_used = lu, error_count = ec, agents = ags, selected_agent_id = None \<rparr>"

definition example_record :: ModelRecord where
  "example_record =
     \<lparr> m_id = ''gpt-4o-mini'', m_name = ''Agent a1'', m_model_name = ''gpt-4o-mini-2024'',
       m_owned_by = ''openai'', m_agents = [''a1'', ''a2'', ''a3''] \<rparr>"

text \<open>Three healthy accounts; the second is the least recently used with the fewest errors.\<close>

definition example_pool :: "RetoolAccount list" where
  "example_pool =
     [example_account ''one.retool.com'' True 5 1 [example_agent ''a1'' ''gpt-4o-mini-2024''],
      example_account ''two.retool.com'' True 5 0 [example_agent ''a2'' ''gpt-4o-mini-2024''],
      example_account ''three.retool.com'' True 9 0 [example_agent ''a3'' ''gpt-4o-mini-2024'']]"

text \<open>One account with three errors, last selected at time 1000.\<close>

definition example_failing_pool :: "RetoolAccount list" where
  "example_failing_pool =
     [example_account ''one.retool.com'' True 1000 3 [example_agent ''a1'' ''gpt-4o-mini-2024'']]"

text \<open>
  A request and an outside world in which every attempt fails at thread creation with the
  given status; pass \<open>k\<close> of the retry loop reads the clock at \<open>1000 + k\<close>.
\<close>

definition example_request :: ChatCompletionRequest where
  "example_request =
     \<lparr> model = ''gpt-4o-mini'', messages = [\<lparr>role = ''user'', content = ''Hi''\<rparr>],
       stream = False \<rparr>"

definition failing_env :: "nat \<Rightarrow> nat \<Rightarrow> AttemptEnv" where
  "failing_env status k =
     \<lparr> sel_now = 1000 + int k, thread_reply = Replied status [],
       send_reply = Threw ''unused'', poll_start = 0, poll_reply = (\<lambda>_. Hangs),
       poll_overshoot = (\<lambda>_. 0), err_time = ''T'', uuid = ''u'', created_s = 0 \<rparr>"


text \<open>A process whose first account has been marked invalid.\<close>

definition example_state :: ServerState where
  "example_state =
     \<lparr> RETOOL_ACCOUNTS =
         [example_account ''one.retool.com'' False 0 3 [example_agent ''a1'' ''gpt-4o-mini-2024''],
          example_account ''two.retool.com'' True 0 0 [example_agent ''a2'' ''gpt-4o-mini-2024'']],
       AVAILABLE_MODELS = [example_record] \<rparr>"



text \<open>
  A start-up: three accounts as configuration loading creates them, and the outcomes of
  their agent queries (two agents of one Claude family on different accounts, three other
  agents, and a query refused with status 401).
\<close>

definition example_fresh_accounts :: "RetoolAccount list" where
  "example_fresh_accounts =
     [example_account ''one.retool.com'' True 0 0 [],
      example_account ''two.retool.com'' True 0 0 [],
      example_account ''three.retool.com'' True 0 0 []]"

definition example_replies :: "nat \<Rightarrow> Agent list fetched" where
  "example_replies i =
     (if i = 0 then
        Replied 200
          [\<lparr> ag_id = ''a1'', ag_name = ''Opus'', ag_model = Some ''anthropic-claude-3-opus-v2'' \<rparr>]
      else if i = 1 then
        Replied 200
          [\<lparr> ag_id = ''a2'', ag_name = ''Opus next'',
             ag_model = Some ''anthropic-claude-3-opus-v3'' \<rparr>,
           \<lparr> ag_id = ''a3'', ag_name = ''Mini'', ag_model = Some ''GPT-4o-mini-2024-07-18'' \<rparr>,
           \<lparr> ag_id = ''a4'', ag_name = ''Nameless'', ag_model = None \<rparr>,
           \<lparr> ag_id = ''a5'', ag_name = ''Sonnet'', ag_model = Some ''Claude-Sonnet-4'' \<rparr>]
      else Replied 401 [])"

section \<open>The catalogue as the specification describes it\<close>

text \<open>
  Written from the specification's words, to be compared with \<open>aggregate\<close>: one record
  per model family, in the order in which the families are first met; the family of an
  agent is its model name cut to three segments; the record takes its display name, its
  full model name and its ownership tag from the first agent of the family and lists the
  ids of all agents of the family. The ownership tag looks for \<^verbatim>\<open>claude\<close> in the
  full model name with its capital letters \<^verbatim>\<open>A\<close> to \<^verbatim>\<open>Z\<close> turned into small
  ones.
\<close>

definition first_occurrences :: "'a list \<Rightarrow> 'a list" where
  "first_occurrences xs = rev (remdups (rev xs))"

definition ascii_lower :: "char \<Rightarrow> char" where
  "ascii_lower c =
     (case map_of (zip ''ABCDEFGHIJKLMNOPQRSTUVWXYZ'' ''abcdefghijklmnopqrstuvwxyz'') c of
        Some l \<Rightarrow> l
      | None \<Rightarrow> c)"

definition catalog_entry :: "string \<Rightarrow> Agent list \<Rightarrow> ModelRecord" where
  "catalog_entry s ags =
     (let members = filter (\<lambda>ag. series_of (full_name ag) = s) ags;
          first = hd members
      in \<lparr> m_id = s, m_name = ag_name first, m_model_name = full_name first,
           m_owned_by = (if includes_str (map ascii_lower (full_name first)) ''claude''
                         then ''anthropic'' else ''openai''),
           m_agents = map ag_id members \<rparr>)"

definition catalog_spec :: "Agent list \<Rightarrow> ModelRecord list" where
  "catalog_spec ags =
     map (\<lambda>s. catalog_entry s ags) (first_occurrences (map (\<lambda>ag. series_of (full_name ag)) ags))"

section \<open>Prompt formatting\<close>

lemma format_loop_snoc: "format_loop (ms @ [m]) = format_loop ms @ format_turn m"
  by (simp add: format_loop_def)

lemma format_loop_concat: "format_loop ms = concat (map format_turn ms)"
  by (induction ms rule: rev_induct) (simp_all add: format_loop_def)


lemma format_snoc:
  "formatMessagesForRetool (ms @ [m]) =
     format_loop ms @ format_turn m
       @ (if role m = ''assistant'' then ''\<newline>\<newline>Human: '' else [])"
  by (simp add: formatMessagesForRetool_def format_loop_snoc Let_def)

lemma format_turn_eq:
  "format_turn =
     (\<lambda>m. ''\<newline>\<newline>'' @ (if role m = ''user'' then ''Human'' else ''Assistant'')
            @ '': '' @ content m)"
  by (rule ext) (simp add: format_turn_def)

text \<open>
  Claim C2, as amended. For the two-message conversation of a user turn followed by an
  assistant turn (in particular "Hi" / "Hello") the formatter does append the trailing
  \<^verbatim>\<open>"\n\nHuman: "\<close> marker after the assistant turn; for the conversation of a
  single user turn nothing follows that turn.
\<close>

theorem format_user_assistant_pair:
  "formatMessagesForRetool
     [\<lparr>role = ''user'', content = a\<rparr>, \<lparr>role = ''assistant'', content = b\<rparr>]
     = ''\<newline>\<newline>Human: '' @ a @ ''\<newline>\<newline>Assistant: '' @ b @ ''\<newline>\<newline>Human: ''
   \<and> formatMessagesForRetool [\<lparr>role = ''user'', content = a\<rparr>] = ''\<newline>\<newline>Human: '' @ a"
  by (simp add: formatMessagesForRetool_def format_loop_def format_turn_def)

text \<open>
  The claim as the specification words it fails at its own example: the text produced for
  "Hi" / "Hello" ends with the marker, not with the assistant turn.
\<close>

theorem format_hi_hello_counterexample:
  "formatMessagesForRetool
     [\<lparr>role = ''user'', content = ''Hi''\<rparr>, \<lparr>role = ''assistant'', content = ''Hello''\<rparr>]
     = ''\<newline>\<newline>Human: Hi\<newline>\<newline>Assistant: Hello\<newline>\<newline>Human: ''
   \<and> formatMessagesForRetool
     [\<lparr>role = ''user'', content = ''Hi''\<rparr>, \<lparr>role = ''assistant'', content = ''Hello''\<rparr>]
     \<noteq> ''\<newline>\<newline>Human: Hi\<newline>\<newline>Assistant: Hello''"
  by (simp add: formatMessagesForRetool_def format_loop_def format_turn_def)

text \<open>
  Claim C8. The formatted prompt is the concatenation, in message order, of one turn per
  message, each turn opened by a blank line and labelled \<^verbatim>\<open>Human: \<close> or
  \<^verbatim>\<open>Assistant: \<close>; the trailing \<^verbatim>\<open>Human: \<close> marker follows exactly when the
  list is non-empty and its last message has role \<^verbatim>\<open>assistant\<close>.
\<close>

theorem formatMessagesForRetool_shape:
  "formatMessagesForRetool ms =
     concat (map (\<lambda>m. ''\<newline>\<newline>''
                       @ (if role m = ''user'' then ''Human'' else ''Assistant'')
                       @ '': '' @ content m) ms)
     @ (if ms \<noteq> [] \<and> role (last ms) = ''assistant'' then ''\<newline>\<newline>Human: '' else [])"
  unfolding formatMessagesForRetool_def format_loop_concat format_turn_eq Let_def
  by simp

text \<open>
  Claim C10. A message's turn is labelled \<^verbatim>\<open>Human: \<close> exactly when its role is the
  string \<^verbatim>\<open>user\<close> and \<^verbatim>\<open>Assistant: \<close> for every other role, \<^verbatim>\<open>system\<close>
  included; the turn of every message appears in the output at the message's position; and
  after the last turn the marker is appended exactly when that message's role is
  \<^verbatim>\<open>assistant\<close>, so not for a final \<^verbatim>\<open>system\<close> message.
\<close>

theorem role_labels:
  "(format_turn m = ''\<newline>\<newline>Human: '' @ content m) = (role m = ''user'')
   \<and> (format_turn m = ''\<newline>\<newline>Assistant: '' @ content m) = (role m \<noteq> ''user'')
   \<and> format_turn \<lparr>role = ''system'', content = c\<rparr> = ''\<newline>\<newline>Assistant: '' @ c
   \<and> format_loop (pre @ m # post) = format_loop pre @ format_turn m @ format_loop post
   \<and> formatMessagesForRetool (ms @ [m]) =
        format_loop ms @ format_turn m
          @ (if role m = ''assistant'' then ''\<newline>\<newline>Human: '' else [])
   \<and> formatMessagesForRetool (ms @ [\<lparr>role = ''system'', content = c\<rparr>]) =
        format_loop ms @ ''\<newline>\<newline>Assistant: '' @ c"
proof -
  have turn_user: "(format_turn m = ''\<newline>\<newline>Human: '' @ content m) = (role m = ''user'')"
    by (simp add: format_turn_def)
  have turn_other: "(format_turn m = ''\<newline>\<newline>Assistant: '' @ content m) = (role m \<noteq> ''user'')"
    by (simp add: format_turn_def)
  have turn_system: "format_turn \<lparr>role = ''system'', content = c\<rparr> = ''\<newline>\<newline>Assistant: '' @ c"
    by (simp add: format_turn_def)
  have position: "format_loop (pre @ m # post) = format_loop pre @ format_turn m @ format_loop post"
    by (simp add: format_loop_concat)
  have final_system: "formatMessagesForRetool (ms @ [\<lparr>role = ''system'', content = c\<rparr>]) =
        format_loop ms @ ''\<newline>\<newline>Assistant: '' @ c"
    by (simp add: format_snoc turn_system)
  from turn_user turn_other turn_system position format_snoc [of ms m] final_system
  show ?thesis by blast
qed

section \<open>Streaming\<close>

lemma upt_0_Suc_shift: "[0..<Suc n] = 0 # map Suc [0..<n]"
  by (simp only: upt_conv_Cons [of 0 "Suc n"] map_Suc_upt zero_less_Suc)

lemma ceil5_step: "0 < (n::nat) \<Longrightarrow> (n + 4) div 5 = Suc ((n - 5 + 4) div 5)"
proof (cases "5 \<le> n")
  case True
  then have "n + 4 = (n - 5 + 4) + 5" by simp
  then have "(n + 4) div 5 = ((n - 5 + 4) + 5) div 5" by simp
  also have "\<dots> = Suc ((n - 5 + 4) div 5)" by simp
  finally show ?thesis .
next
  case False
  assume "0 < n"
  with False have "n = 1 \<or> n = 2 \<or> n = 3 \<or> n = 4" by linarith
  then show ?thesis by auto
qed

lemma content_loop_eq:
  "content_loop sf sid cr mid msg i =
     map (\<lambda>k. ''data: ''
                @ sf (Chunk \<lparr> c_id = sid, c_object = ''chat.completion.chunk'',
                              c_created = cr, c_model = mid,
                              c_delta = DeltaContent (take 5 (drop (i + 5 * k) msg)),
                              c_index = 0, c_finish_reason = None \<rparr>)
                @ ''\<newline>\<newline>'')
       [0..<(length msg - i + 4) div 5]"
proof (induction sf sid cr mid msg i rule: content_loop.induct)
  case (1 sf sid cr mid msg i)
  show ?case
  proof (cases "i < length msg")
    case True
    let ?F = "\<lambda>j. ''data: ''
                @ sf (Chunk \<lparr> c_id = sid, c_object = ''chat.completion.chunk'',
                              c_created = cr, c_model = mid,
                              c_delta = DeltaContent (take 5 (drop j msg)),
                              c_index = 0, c_finish_reason = None \<rparr>)
                @ ''\<newline>\<newline>''"
    let ?n = "(length msg - (i + 5) + 4) div 5"
    from True have "0 < length msg - i" by simp
    from ceil5_step [OF this] have len: "(length msg - i + 4) div 5 = Suc ?n"
      by simp
    have ih: "content_loop sf sid cr mid msg (i + 5) = map (\<lambda>k. ?F (i + 5 + 5 * k)) [0..<?n]"
      using 1 [OF True] by (simp add: chunkSize_def)
    have "content_loop sf sid cr mid msg i = ?F i # content_loop sf sid cr mid msg (i + 5)"
      using True by (subst content_loop.simps) (simp add: slice_def chunkSize_def)
    also have "\<dots> = ?F i # map (\<lambda>k. ?F (i + 5 * Suc k)) [0..<?n]"
      by (simp only: ih mult_Suc_right add.assoc)
    also have "\<dots> = map (\<lambda>k. ?F (i + 5 * k)) [0..<Suc ?n]"
      by (simp only: upt_0_Suc_shift list.map map_map o_def mult_0_right add_0_right)
    finally show ?thesis by (simp only: len)
  next
    case False
    then show ?thesis
      by (subst content_loop.simps) simp
  qed
qed

lemma concat_slices_take:
  "concat (map (\<lambda>k. take 5 (drop (5 * k) xs)) [0..<n]) = take (5 * n) xs"
proof (induction n)
  case 0
  show ?case by simp
next
  case (Suc n)
  have "5 * Suc n = 5 * n + 5" by simp
  then have "take (5 * Suc n) xs = take (5 * n + 5) xs" by (simp only:)
  also have "\<dots> = take (5 * n) xs @ take 5 (drop (5 * n) xs)" by (rule take_add)
  finally show ?case using Suc by (simp add: add.commute)
qed

text \<open>
  Claim C6. For every completion text the generator yields, in this order: the frame of a
  chunk whose delta announces the role \<^verbatim>\<open>assistant\<close>; one frame for each of the
  \<open>\<lceil>length text / 5\<rceil>\<close> consecutive five-character slices of the text, the chunk's
  delta holding the slice (together the slices spell the text); and the frame of a chunk
  with an empty delta and finish reason \<^verbatim>\<open>stop\<close>, followed by the \<^verbatim>\<open>[DONE]\<close>
  marker. A frame is \<^verbatim>\<open>data: \<close>, the serialised chunk and a blank line, and every
  chunk carries the one stream id, the one creation time and the model id. For
  \<^verbatim>\<open>Hello world\<close> the content frames are exactly those of \<^verbatim>\<open>Hello\<close>,
  \<^verbatim>\<open> worl\<close> and \<^verbatim>\<open>d\<close>.
\<close>

theorem retoolStreamGenerator_frames:
  "(let frame = (\<lambda>d fin.
         ''data: ''
           @ stringify
               (Chunk \<lparr> c_id = streamId, c_object = ''chat.completion.chunk'',
                        c_created = created, c_model = modelId, c_delta = d,
                        c_index = 0, c_finish_reason = fin \<rparr>)
           @ ''\<newline>\<newline>'')
    in retoolStreamGenerator stringify streamId created text modelId =
         [frame (DeltaRole ''assistant'') None]
         @ map (\<lambda>k. frame (DeltaContent (take 5 (drop (5 * k) text))) None)
             [0..<(length text + 4) div 5]
         @ [frame DeltaEmpty (Some ''stop'') @ ''data: [DONE]\<newline>\<newline>'']
     \<and> concat (map (\<lambda>k. take 5 (drop (5 * k) text)) [0..<(length text + 4) div 5]) = text
     \<and> retoolStreamGenerator stringify streamId created ''Hello world'' modelId =
         [frame (DeltaRole ''assistant'') None,
          frame (DeltaContent ''Hello'') None,
          frame (DeltaContent '' worl'') None,
          frame (DeltaContent ''d'') None,
          frame DeltaEmpty (Some ''stop'') @ ''data: [DONE]\<newline>\<newline>''])"
proof -
  define frame where "frame = (\<lambda>d fin.
         ''data: ''
           @ stringify
               (Chunk \<lparr> c_id = streamId, c_object = ''chat.completion.chunk'',
                        c_created = created, c_model = modelId, c_delta = d,
                        c_index = 0, c_finish_reason = fin \<rparr>)
           @ ''\<newline>\<newline>'')"
  have shape: "retoolStreamGenerator stringify streamId created t modelId =
         [frame (DeltaRole ''assistant'') None]
         @ map (\<lambda>k. frame (DeltaContent (take 5 (drop (5 * k) t))) None)
             [0..<(length t + 4) div 5]
         @ [frame DeltaEmpty (Some ''stop'') @ ''data: [DONE]\<newline>\<newline>'']" for t
    by (simp add: retoolStreamGenerator_def content_loop_eq Let_def frame_def)
  have "length text \<le> 5 * ((length text + 4) div 5)" by presburger
  then have whole:
    "concat (map (\<lambda>k. take 5 (drop (5 * k) text)) [0..<(length text + 4) div 5]) = text"
    by (simp add: concat_slices_take)
  have three: "[0..<(length ''Hello world'' + 4) div 5] = [0, 1, 2]"
    by (simp add: upt_conv_Cons)
  have hello: "retoolStreamGenerator stringify streamId created ''Hello world'' modelId =
         [frame (DeltaRole ''assistant'') None,
          frame (DeltaContent ''Hello'') None,
          frame (DeltaContent '' worl'') None,
          frame (DeltaContent ''d'') None,
          frame DeltaEmpty (Some ''stop'') @ ''data: [DONE]\<newline>\<newline>'']"
    unfolding shape three by simp
  from shape [of "text"] whole hello show ?thesis
    unfolding Let_def frame_def by blast
qed

section \<open>Account selection\<close>

lemma length_getBestRetoolAccount:
  "length (snd (getBestRetoolAccount models accs modelId now)) = length accs"
  by (simp add: getBestRetoolAccount_def Let_def split: option.split list.split)

lemma filter_callback_keeps:
  "fst (filter_callback allowed now acc) =
     (is_valid acc \<and> \<not> (error_count acc \<ge> 3 \<and> now - last_used acc < 300000)
      \<and> find (\<lambda>a. ag_id a \<in> set allowed) (agents acc) \<noteq> None)"
  by (auto simp: filter_callback_def split: option.split)

lemma filter_callback_frame:
  "is_valid (snd (filter_callback allowed now acc)) = is_valid acc"
  "last_used (snd (filter_callback allowed now acc)) = last_used acc"
  "error_count (snd (filter_callback allowed now acc)) = error_count acc"
  "agents (snd (filter_callback allowed now acc)) = agents acc"
  "domain_name (snd (filter_callback allowed now acc)) = domain_name acc"
  by (simp_all add: filter_callback_def split: option.split)

lemma set_candidates:
  "set (candidates allowed now accs) =
     {i. i < length accs \<and> fst (filter_callback allowed now (accs ! i))}"
  by (auto simp: candidates_def)

lemma find_agent_iff:
  "(find (\<lambda>a. ag_id a \<in> set allowed) ags \<noteq> None) = (\<exists>a \<in> set ags. ag_id a \<in> set allowed)"
  by (auto simp: find_None_iff)

lemma compare_accounts_le:
  "(compare_accounts a b \<le> 0) =
     (last_used a < last_used b \<or> (last_used a = last_used b \<and> error_count a \<le> error_count b))"
  by (auto simp: compare_accounts_def)

lemma set_insert_by: "set (insert_by cmp x ys) = insert x (set ys)"
  by (induction ys) auto

lemma set_sort_by: "set (sort_by cmp xs) = set xs"
  by (induction xs) (simp_all add: sort_by_def set_insert_by)

lemma sort_by_Cons: "sort_by cmp (x # xs) = insert_by cmp x (sort_by cmp xs)"
  by (simp add: sort_by_def)

lemma sort_by_head_min:
  assumes total: "\<And>x y. cmp x y \<le> 0 \<or> cmp y x \<le> 0"
    and trans: "\<And>x y z. cmp x y \<le> 0 \<Longrightarrow> cmp y z \<le> 0 \<Longrightarrow> cmp x z \<le> 0"
  shows "sort_by cmp xs = h # t \<Longrightarrow> y \<in> set xs \<Longrightarrow> cmp h y \<le> 0"
proof (induction xs arbitrary: h t y)
  case Nil
  then show ?case by simp
next
  case (Cons x xs)
  from Cons.prems(1) have ins: "insert_by cmp x (sort_by cmp xs) = h # t"
    by (simp add: sort_by_Cons)
  show ?case
  proof (cases "sort_by cmp xs")
    case Nil
    with ins have "h = x" by simp
    moreover from Nil have "xs = []" using set_sort_by [of cmp xs] by simp
    ultimately show ?thesis using Cons.prems(2) total [of x x] by auto
  next
    case (Cons h' t')
    note sorted_tail = this
    have tail_min: "\<And>z. z \<in> set xs \<Longrightarrow> cmp h' z \<le> 0"
      using Cons.IH [OF sorted_tail] .
    show ?thesis
    proof (cases "cmp x h' \<le> 0")
      case True
      with ins sorted_tail have "h = x" by simp
      moreover have "cmp x x \<le> 0" using total [of x x] by simp
      moreover have "\<And>z. z \<in> set xs \<Longrightarrow> cmp x z \<le> 0"
        using trans [OF True tail_min] .
      ultimately show ?thesis using Cons.prems(2) by auto
    next
      case False
      with ins sorted_tail have "h = h'" by simp
      moreover from False have "cmp h' x \<le> 0" using total [of x h'] by simp
      ultimately show ?thesis using Cons.prems(2) tail_min by auto
    qed
  qed
qed

lemma sort_by_Nil_iff: "(sort_by cmp xs = []) = (xs = [])"
  using set_sort_by [of cmp xs] by (metis set_empty)


lemma compare_accounts_total: "compare_accounts a b \<le> 0 \<or> compare_accounts b a \<le> 0"
  by (auto simp: compare_accounts_le)

lemma compare_accounts_trans:
  "compare_accounts a b \<le> 0 \<Longrightarrow> compare_accounts b c \<le> 0 \<Longrightarrow> compare_accounts a c \<le> 0"
  by (auto simp: compare_accounts_le)

lemma candidates_bound: "i \<in> set (candidates allowed now accs) \<Longrightarrow> i < length accs"
  by (simp add: set_candidates)

lemma getBestRetoolAccount_None:
  "find (\<lambda>m. m_id m = modelId) models = Some record \<Longrightarrow>
   candidates (m_agents record) now accs = [] \<Longrightarrow>
   fst (getBestRetoolAccount models accs modelId now) = None"
  by (simp add: getBestRetoolAccount_def sort_by_def)

lemma getBestRetoolAccount_unknown:
  "find (\<lambda>m. m_id m = modelId) models = None \<Longrightarrow>
   getBestRetoolAccount models accs modelId now = (None, accs)"
  by (simp add: getBestRetoolAccount_def)

lemma getBestRetoolAccount_chosen:
  assumes found: "find (\<lambda>m. m_id m = modelId) models = Some record"
    and nonempty: "candidates (m_agents record) now accs \<noteq> []"
  shows "\<exists>i. getBestRetoolAccount models accs modelId now =
               (Some i,
                (map (\<lambda>acc. snd (filter_callback (m_agents record) now acc)) accs)
                  [i := (snd (filter_callback (m_agents record) now (accs ! i)))\<lparr>last_used := now\<rparr>])
             \<and> i \<in> set (candidates (m_agents record) now accs)
             \<and> (\<forall>j \<in> set (candidates (m_agents record) now accs).
                   compare_accounts (accs ! i) (accs ! j) \<le> 0)"
proof -
  let ?allowed = "m_agents record"
  let ?cands = "candidates ?allowed now accs"
  let ?accs1 = "map (\<lambda>acc. snd (filter_callback ?allowed now acc)) accs"
  let ?cmp = "\<lambda>i j. compare_accounts (?accs1 ! i) (?accs1 ! j)"
  from nonempty obtain i t where sorted: "sort_by ?cmp ?cands = i # t"
    by (cases "sort_by ?cmp ?cands") (simp_all add: sort_by_Nil_iff)
  then have "i \<in> set (sort_by ?cmp ?cands)" by simp
  then have mem: "i \<in> set ?cands" by (simp add: set_sort_by)
  then have i_bound: "i < length accs" by (rule candidates_bound)
  have total: "?cmp x y \<le> 0 \<or> ?cmp y x \<le> 0" for x y
    by (rule compare_accounts_total)
  have trans: "?cmp x y \<le> 0 \<Longrightarrow> ?cmp y z \<le> 0 \<Longrightarrow> ?cmp x z \<le> 0" for x y z
    by (rule compare_accounts_trans)
  have minimal: "?cmp i j \<le> 0" if "j \<in> set ?cands" for j
    using sort_by_head_min [of ?cmp, OF total trans sorted that] .
  have "compare_accounts (accs ! i) (accs ! j) \<le> 0" if "j \<in> set ?cands" for j
  proof -
    from that have "j < length accs" by (rule candidates_bound)
    with minimal [OF that] i_bound show ?thesis
      by (simp add: compare_accounts_le filter_callback_frame)
  qed
  moreover have "getBestRetoolAccount models accs modelId now =
      (Some i, ?accs1[i := (snd (filter_callback ?allowed now (accs ! i)))\<lparr>last_used := now\<rparr>])"
    using found sorted i_bound by (simp add: getBestRetoolAccount_def Let_def)
  ultimately show ?thesis using mem by blast
qed

text \<open>
  Claim C3. Take an account that is valid and has an agent among those of the requested
  model. While it has three or more errors and fewer than 300000 ms have passed since its
  last selection, it is not among the candidates and the selector does not return it; once
  300000 ms or more have passed it is a candidate again, whatever its error count.
\<close>

theorem selector_quarantine:
  assumes "find (\<lambda>m. m_id m = modelId) models = Some record"
    and "i < length accs"
    and "is_valid (accs ! i)"
    and "\<exists>a \<in> set (agents (accs ! i)). ag_id a \<in> set (m_agents record)"
  shows "(error_count (accs ! i) \<ge> 3 \<and> now - last_used (accs ! i) < 300000 \<longrightarrow>
            i \<notin> set (candidates (m_agents record) now accs)
          \<and> fst (getBestRetoolAccount models accs modelId now) \<noteq> Some i)
       \<and> (now - last_used (accs ! i) \<ge> 300000 \<longrightarrow>
            i \<in> set (candidates (m_agents record) now accs))"
proof (intro conjI impI)
  assume q: "error_count (accs ! i) \<ge> 3 \<and> now - last_used (accs ! i) < 300000"
  then show out: "i \<notin> set (candidates (m_agents record) now accs)"
    by (simp add: set_candidates filter_callback_keeps)
  show "fst (getBestRetoolAccount models accs modelId now) \<noteq> Some i"
  proof (cases "candidates (m_agents record) now accs = []")
    case True
    with assms(1) show ?thesis by (simp add: getBestRetoolAccount_None)
  next
    case False
    from getBestRetoolAccount_chosen [OF assms(1) False] out show ?thesis by auto
  qed
next
  assume "now - last_used (accs ! i) \<ge> 300000"
  moreover from assms(4)
  have "find (\<lambda>a. ag_id a \<in> set (m_agents record)) (agents (accs ! i)) \<noteq> None"
    by (simp only: find_agent_iff)
  ultimately show "i \<in> set (candidates (m_agents record) now accs)"
    using assms(2,3) by (simp add: set_candidates filter_callback_keeps)
qed

theorem selector_quarantine_witness:
  "is_valid (example_failing_pool ! 0)
   \<and> error_count (example_failing_pool ! 0) = 3
   \<and> last_used (example_failing_pool ! 0) = 1000
   \<and> 0 \<notin> set (candidates (m_agents example_record) 2000 example_failing_pool)
   \<and> fst (getBestRetoolAccount [example_record] example_failing_pool ''gpt-4o-mini'' 2000)
       \<noteq> Some 0
   \<and> 0 \<in> set (candidates (m_agents example_record) 301000 example_failing_pool)"
proof -
  have found: "find (\<lambda>m. m_id m = ''gpt-4o-mini'') [example_record] = Some example_record"
    by (simp add: example_record_def)
  have bound: "0 < length example_failing_pool"
    by (simp add: example_failing_pool_def)
  have fields: "is_valid (example_failing_pool ! 0)"
    "error_count (example_failing_pool ! 0) = 3"
    "last_used (example_failing_pool ! 0) = 1000"
    by (simp_all add: example_failing_pool_def example_account_def)
  have serves: "\<exists>a \<in> set (agents (example_failing_pool ! 0)).
                  ag_id a \<in> set (m_agents example_record)"
    by (simp add: example_failing_pool_def example_account_def example_agent_def
        example_record_def)
  note at_time = selector_quarantine [OF found bound fields(1) serves]
  from at_time [of 2000] at_time [of 301000] fields show ?thesis
    by simp
qed

text \<open>
  Claim C4. When the model is known and the candidate set is not empty, the selector
  returns a candidate that is least in the order by \<open>last_used\<close>, then by
  \<open>error_count\<close>, and the account it returns has its \<open>last_used\<close> set to the current
  time before any attempt is made with it; the \<open>last_used\<close> of every other account is
  unchanged, and a failed attempt leaves \<open>last_used\<close> as the selection set it.
\<close>

theorem selector_least_recently_used:
  assumes "find (\<lambda>m. m_id m = modelId) models = Some record"
    and "candidates (m_agents record) now accs \<noteq> []"
  shows "\<exists>i. fst (getBestRetoolAccount models accs modelId now) = Some i
           \<and> i \<in> set (candidates (m_agents record) now accs)
           \<and> (\<forall>j \<in> set (candidates (m_agents record) now accs).
                 last_used (accs ! i) < last_used (accs ! j)
               \<or> (last_used (accs ! i) = last_used (accs ! j)
                  \<and> error_count (accs ! i) \<le> error_count (accs ! j)))
           \<and> last_used (snd (getBestRetoolAccount models accs modelId now) ! i) = now
           \<and> (\<forall>j < length accs. j \<noteq> i \<longrightarrow>
                 last_used (snd (getBestRetoolAccount models accs modelId now) ! j)
                   = last_used (accs ! j))
           \<and> last_used (fst (on_failure acc err ts)) = last_used acc"
proof -
  from getBestRetoolAccount_chosen [OF assms] obtain i where
    res: "getBestRetoolAccount models accs modelId now =
               (Some i,
                (map (\<lambda>acc. snd (filter_callback (m_agents record) now acc)) accs)
                  [i := (snd (filter_callback (m_agents record) now (accs ! i)))\<lparr>last_used := now\<rparr>])"
    and mem: "i \<in> set (candidates (m_agents record) now accs)"
    and least: "\<forall>j \<in> set (candidates (m_agents record) now accs).
                   compare_accounts (accs ! i) (accs ! j) \<le> 0"
    by blast
  from mem have i_bound: "i < length accs" by (rule candidates_bound)
  have "last_used (snd (getBestRetoolAccount models accs modelId now) ! i) = now"
    using i_bound by (simp add: res)
  moreover have "\<forall>j < length accs. j \<noteq> i \<longrightarrow>
                 last_used (snd (getBestRetoolAccount models accs modelId now) ! j)
                   = last_used (accs ! j)"
    by (simp add: res filter_callback_frame)
  moreover have "fst (getBestRetoolAccount models accs modelId now) = Some i"
    by (simp add: res)
  moreover have "last_used (fst (on_failure acc err ts)) = last_used acc"
    by (simp add: on_failure_def Let_def split: exn.split)
  ultimately show ?thesis using mem least
    by (auto simp: compare_accounts_le)
qed

theorem selector_least_recently_used_witness:
  "find (\<lambda>m. m_id m = ''gpt-4o-mini'') [example_record] = Some example_record
   \<and> candidates (m_agents example_record) 100 example_pool = [0, 1, 2]
   \<and> fst (getBestRetoolAccount [example_record] example_pool ''gpt-4o-mini'' 100) = Some 1
   \<and> last_used (snd (getBestRetoolAccount [example_record] example_pool ''gpt-4o-mini'' 100) ! 1)
       = 100"
proof -
  have found: "find (\<lambda>m. m_id m = ''gpt-4o-mini'') [example_record] = Some example_record"
    by (simp add: example_record_def)
  have three: "[0..<3] = [0, 1, 2]"
    by (simp add: upt_conv_Cons)
  have cands: "candidates (m_agents example_record) 100 example_pool = [0, 1, 2]"
    by (simp add: candidates_def example_pool_def example_record_def example_account_def
        example_agent_def filter_callback_def three)
  then have nonempty: "candidates (m_agents example_record) 100 example_pool \<noteq> []"
    by simp
  from selector_least_recently_used [OF found nonempty] obtain i where
    chosen: "fst (getBestRetoolAccount [example_record] example_pool ''gpt-4o-mini'' 100) = Some i"
    and least: "\<forall>j \<in> set (candidates (m_agents example_record) 100 example_pool).
                 last_used (example_pool ! i) < last_used (example_pool ! j)
               \<or> (last_used (example_pool ! i) = last_used (example_pool ! j)
                  \<and> error_count (example_pool ! i) \<le> error_count (example_pool ! j))"
    and mem: "i \<in> set (candidates (m_agents example_record) 100 example_pool)"
    and stamped: "last_used (snd (getBestRetoolAccount [example_record] example_pool
                    ''gpt-4o-mini'' 100) ! i) = 100"
    by blast
  from mem cands have range: "i = 0 \<or> i = 1 \<or> i = 2" by simp
  from least cands have
    "last_used (example_pool ! i) < last_used (example_pool ! 1)
     \<or> (last_used (example_pool ! i) = last_used (example_pool ! 1)
        \<and> error_count (example_pool ! i) \<le> error_count (example_pool ! 1))"
    by simp
  with range have "i = 1"
    by (auto simp: example_pool_def example_account_def)
  with found cands chosen stamped show ?thesis by simp
qed

section \<open>The retry loop\<close>

lemma attempt_loop_end:
  "\<not> attempt < length accs \<Longrightarrow>
   attempt_loop sf models body formatted env attempt accs errs n = Some (Exhausted n errs, accs)"
  by (subst attempt_loop.simps) simp

lemma attempt_loop_none:
  "attempt < length accs \<Longrightarrow>
   getBestRetoolAccount models accs (model body) (sel_now (env attempt)) = (None, accs1) \<Longrightarrow>
   attempt_loop sf models body formatted env attempt accs errs n = Some (Exhausted n errs, accs1)"
  by (subst attempt_loop.simps) simp

lemma attempt_loop_diverge:
  "attempt < length accs \<Longrightarrow>
   getBestRetoolAccount models accs (model body) (sel_now (env attempt)) = (Some i, accs1) \<Longrightarrow>
   session (accs1 ! i) (selected_agent_id (accs1 ! i)) formatted (env attempt) = None \<Longrightarrow>
   attempt_loop sf models body formatted env attempt accs errs n = None"
  by (subst attempt_loop.simps) simp

lemma attempt_loop_success:
  "attempt < length accs \<Longrightarrow>
   getBestRetoolAccount models accs (model body) (sel_now (env attempt)) = (Some i, accs1) \<Longrightarrow>
   session (accs1 ! i) (selected_agent_id (accs1 ! i)) formatted (env attempt) = Some (Inr txt) \<Longrightarrow>
   attempt_loop sf models body formatted env attempt accs errs n =
     Some (Returned (success_response sf body (env attempt) txt), accs1)"
  by (subst attempt_loop.simps) simp

lemma attempt_loop_failure:
  "attempt < length accs \<Longrightarrow>
   getBestRetoolAccount models accs (model body) (sel_now (env attempt)) = (Some i, accs1) \<Longrightarrow>
   session (accs1 ! i) (selected_agent_id (accs1 ! i)) formatted (env attempt) = Some (Inl err) \<Longrightarrow>
   on_failure (accs1 ! i) err (err_time (env attempt)) = (acc', e) \<Longrightarrow>
   attempt_loop sf models body formatted env attempt accs errs n =
     attempt_loop sf models body formatted env (Suc attempt) (accs1[i := acc']) (errs @ [e]) (Suc n)"
  by (subst attempt_loop.simps) simp


lemma nth_update_field:
  "j < length xs \<Longrightarrow> (\<And>x. P (u x) = P x) \<Longrightarrow> P (xs[k := u (xs ! k)] ! j) = P (xs ! j)"
  by (cases "j = k") simp_all

lemma getBestRetoolAccount_frame:
  assumes "j < length accs"
  shows "is_valid (snd (getBestRetoolAccount models accs modelId now) ! j) = is_valid (accs ! j)"
    and "error_count (snd (getBestRetoolAccount models accs modelId now) ! j) = error_count (accs ! j)"
    and "domain_name (snd (getBestRetoolAccount models accs modelId now) ! j) = domain_name (accs ! j)"
proof -
  have "is_valid (snd (getBestRetoolAccount models accs modelId now) ! j) = is_valid (accs ! j)
      \<and> error_count (snd (getBestRetoolAccount models accs modelId now) ! j) = error_count (accs ! j)
      \<and> domain_name (snd (getBestRetoolAccount models accs modelId now) ! j) = domain_name (accs ! j)"
  proof (cases "find (\<lambda>m. m_id m = modelId) models")
    case None
    then show ?thesis by (simp add: getBestRetoolAccount_unknown)
  next
    case (Some found)
    let ?accs1 = "map (\<lambda>acc. snd (filter_callback (m_agents found) now acc)) accs"
    let ?stamp = "\<lambda>acc. acc\<lparr>last_used := now\<rparr>"
    from assms have j1: "j < length ?accs1" by simp
    obtain k where
      "snd (getBestRetoolAccount models accs modelId now) = ?accs1
       \<or> snd (getBestRetoolAccount models accs modelId now) = ?accs1[k := ?stamp (?accs1 ! k)]"
    proof (cases "sort_by (\<lambda>i j. compare_accounts (?accs1 ! i) (?accs1 ! j))
                    (candidates (m_agents found) now accs)")
      case Nil
      with Some have "snd (getBestRetoolAccount models accs modelId now) = ?accs1"
        by (simp add: getBestRetoolAccount_def Let_def)
      with that show ?thesis by blast
    next
      case (Cons c t)
      with Some have "snd (getBestRetoolAccount models accs modelId now)
                        = ?accs1[c := ?stamp (?accs1 ! c)]"
        by (simp add: getBestRetoolAccount_def Let_def)
      with that show ?thesis by blast
    qed
    moreover have "is_valid (?accs1[k := ?stamp (?accs1 ! k)] ! j) = is_valid (?accs1 ! j)"
      by (rule nth_update_field [OF j1]) simp
    moreover have "error_count (?accs1[k := ?stamp (?accs1 ! k)] ! j) = error_count (?accs1 ! j)"
      by (rule nth_update_field [OF j1]) simp
    moreover have "domain_name (?accs1[k := ?stamp (?accs1 ! k)] ! j) = domain_name (?accs1 ! j)"
      by (rule nth_update_field [OF j1]) simp
    moreover have "is_valid (?accs1 ! j) = is_valid (accs ! j)"
      "error_count (?accs1 ! j) = error_count (accs ! j)"
      "domain_name (?accs1 ! j) = domain_name (accs ! j)"
      using assms by (simp_all add: filter_callback_frame)
    ultimately show ?thesis by auto
  qed
  then show "is_valid (snd (getBestRetoolAccount models accs modelId now) ! j) = is_valid (accs ! j)"
    and "error_count (snd (getBestRetoolAccount models accs modelId now) ! j) = error_count (accs ! j)"
    and "domain_name (snd (getBestRetoolAccount models accs modelId now) ! j) = domain_name (accs ! j)"
    by simp_all
qed

lemma getBestRetoolAccount_Some:
  assumes "fst (getBestRetoolAccount models accs modelId now) = Some i"
  shows "i < length accs \<and> is_valid (accs ! i)"
proof (cases "find (\<lambda>m. m_id m = modelId) models")
  case None
  with assms show ?thesis by (simp add: getBestRetoolAccount_unknown)
next
  case (Some found)
  show ?thesis
  proof (cases "candidates (m_agents found) now accs = []")
    case True
    with Some assms show ?thesis by (simp add: getBestRetoolAccount_None)
  next
    case False
    from getBestRetoolAccount_chosen [OF Some False] assms
    have "i \<in> set (candidates (m_agents found) now accs)" by auto
    then show ?thesis by (simp add: set_candidates filter_callback_keeps)
  qed
qed

lemma on_failure_valid:
  "is_valid (fst (on_failure acc err ts)) \<Longrightarrow> is_valid acc"
  by (auto simp: on_failure_def Let_def split: exn.splits if_splits)

lemma on_failure_auth:
  "statusCode e = Some 401 \<or> statusCode e = Some 403 \<Longrightarrow>
   \<not> is_valid (fst (on_failure acc (RetoolApiError e) ts))"
  by (auto simp: on_failure_def Let_def)


lemma attempt_loop_valid:
  "attempt_loop sf models body formatted env attempt accs errs n = Some (ex, accs') \<Longrightarrow>
   length accs' = length accs \<and> (\<forall>j < length accs. is_valid (accs' ! j) \<longrightarrow> is_valid (accs ! j))"
proof (induction "length accs - attempt" arbitrary: attempt accs errs n)
  case 0
  then have "\<not> attempt < length accs" by simp
  from attempt_loop_end [OF this] "0.prems" show ?case by simp
next
  case (Suc d)
  then have lt: "attempt < length accs" by simp
  obtain r accs1 where sel: "getBestRetoolAccount models accs (model body) (sel_now (env attempt)) = (r, accs1)"
    by (cases "getBestRetoolAccount models accs (model body) (sel_now (env attempt))")
  from sel have len1: "length accs1 = length accs"
    using length_getBestRetoolAccount [of models accs "model body" "sel_now (env attempt)"] by simp
  from sel have valid1: "\<forall>j < length accs. is_valid (accs1 ! j) = is_valid (accs ! j)"
    using getBestRetoolAccount_frame(1) [of _ accs models "model body" "sel_now (env attempt)"]
    by simp
  show ?case
  proof (cases r)
    case None
    from attempt_loop_none [where env = env and attempt = attempt, OF lt sel [unfolded None]] Suc.prems len1 valid1
    show ?thesis by auto
  next
    case (Some i)
    note sel' = sel [unfolded Some]
    show ?thesis
    proof (cases "session (accs1 ! i) (selected_agent_id (accs1 ! i)) formatted (env attempt)")
      case None
      from attempt_loop_diverge [where env = env and attempt = attempt, OF lt sel' None] Suc.prems show ?thesis by simp
    next
      case (Some res)
      show ?thesis
      proof (cases res)
        case (Inr answer)
        from attempt_loop_success [where env = env and attempt = attempt, OF lt sel' Some [unfolded Inr]] Suc.prems len1 valid1
        show ?thesis by auto
      next
        case (Inl err)
        obtain acc' e where fail: "on_failure (accs1 ! i) err (err_time (env attempt)) = (acc', e)"
          by (cases "on_failure (accs1 ! i) err (err_time (env attempt))")
        let ?accs2 = "accs1[i := acc']"
        from attempt_loop_failure [where env = env and attempt = attempt, OF lt sel' Some [unfolded Inl] fail] Suc.prems
        have rest: "attempt_loop sf models body formatted env (Suc attempt) ?accs2 (errs @ [e]) (Suc n)
                      = Some (ex, accs')"
          by simp
        have "d = length ?accs2 - Suc attempt"
          using Suc.hyps(2) len1 by simp
        from Suc.hyps(1) [OF this rest]
        have ih: "length accs' = length ?accs2"
          "\<forall>j < length ?accs2. is_valid (accs' ! j) \<longrightarrow> is_valid (?accs2 ! j)"
          by simp_all
        have step: "is_valid (?accs2 ! j) \<longrightarrow> is_valid (accs1 ! j)" if "j < length accs" for j
          using that len1 on_failure_valid [of "accs1 ! i" err "err_time (env attempt)"] fail
          by (cases "j = i") auto
        from ih step len1 valid1 show ?thesis by auto
      qed
    qed
  qed
qed

lemma handleRequest_valid:
  "handleRequest sf models accs body env = Some (resp, accs') \<Longrightarrow>
   length accs' = length accs \<and> (\<forall>j < length accs. is_valid (accs' ! j) \<longrightarrow> is_valid (accs ! j))"
  by (auto simp: handleRequest_def Let_def
      split: if_splits option.splits prod.splits loop_exit.splits
      dest!: attempt_loop_valid)

lemma discover_account_valid:
  "is_valid (discover_account acc r ts) \<Longrightarrow> is_valid acc"
  by (auto simp: discover_account_def Let_def split: sum.splits exn.splits if_splits)

lemma initializeRetoolEnvironment_valid:
  "length (fst (initializeRetoolEnvironment accs replies ts)) = length accs"
  "j < length accs \<Longrightarrow> is_valid (fst (initializeRetoolEnvironment accs replies ts) ! j) \<Longrightarrow>
     is_valid (accs ! j)"
  by (auto simp: initializeRetoolEnvironment_def Let_def dest: discover_account_valid)

lemma apply_operation_valid:
  "apply_operation sf x s = Some s' \<Longrightarrow>
   length (RETOOL_ACCOUNTS s') = length (RETOOL_ACCOUNTS s)
   \<and> (\<forall>j < length (RETOOL_ACCOUNTS s).
         is_valid (RETOOL_ACCOUNTS s' ! j) \<longrightarrow> is_valid (RETOOL_ACCOUNTS s ! j))"
proof (cases x)
  case (OpStartup replies ts)
  assume "apply_operation sf x s = Some s'"
  with OpStartup have "RETOOL_ACCOUNTS s' = fst (initializeRetoolEnvironment (RETOOL_ACCOUNTS s) replies ts)"
    by (auto split: prod.splits)
  then show ?thesis
    using initializeRetoolEnvironment_valid [where accs = "RETOOL_ACCOUNTS s"
        and replies = replies and ts = ts] by auto
next
  case (OpChat body env)
  assume "apply_operation sf x s = Some s'"
  with OpChat obtain resp accs' where
    "handleRequest sf (AVAILABLE_MODELS s) (RETOOL_ACCOUNTS s) body env = Some (resp, accs')"
    "RETOOL_ACCOUNTS s' = accs'"
    by (auto split: option.splits prod.splits)
  then show ?thesis using handleRequest_valid by blast
next
  case (OpSelect modelId now)
  assume "apply_operation sf x s = Some s'"
  with OpSelect have "RETOOL_ACCOUNTS s' =
      snd (getBestRetoolAccount (AVAILABLE_MODELS s) (RETOOL_ACCOUNTS s) modelId now)"
    by auto
  then show ?thesis
    by (simp add: length_getBestRetoolAccount getBestRetoolAccount_frame)
qed

lemma run_operations_valid:
  "run_operations sf xs s = Some s' \<Longrightarrow>
   length (RETOOL_ACCOUNTS s') = length (RETOOL_ACCOUNTS s)
   \<and> (\<forall>j < length (RETOOL_ACCOUNTS s).
         is_valid (RETOOL_ACCOUNTS s' ! j) \<longrightarrow> is_valid (RETOOL_ACCOUNTS s ! j))"
proof (induction xs arbitrary: s)
  case Nil
  then show ?case by simp
next
  case (Cons x xs)
  from Cons.prems obtain s1 where first: "apply_operation sf x s = Some s1"
    and rest: "run_operations sf xs s1 = Some s'"
    by (auto split: option.splits)
  from apply_operation_valid [OF first] Cons.IH [OF rest] show ?case by auto
qed












section \<open>Invalid accounts\<close>

text \<open>
  Claim C5. An account that is invalid stays invalid through every sequence of operations
  of the process (start-up discovery, chat-completion requests, calls of the selector),
  and no later call of the selector returns it, at whatever time the call is made. An
  error with status 401 or 403 makes the account it was observed on invalid.
\<close>

theorem invalid_is_permanent:
  assumes "run_operations stringify ops s = Some s'"
    and "i < length (RETOOL_ACCOUNTS s)"
    and "\<not> is_valid (RETOOL_ACCOUNTS s ! i)"
  shows "i < length (RETOOL_ACCOUNTS s')
       \<and> \<not> is_valid (RETOOL_ACCOUNTS s' ! i)
       \<and> fst (getBestRetoolAccount (AVAILABLE_MODELS s') (RETOOL_ACCOUNTS s') modelId now) \<noteq> Some i
       \<and> (statusCode e = Some 401 \<or> statusCode e = Some 403 \<longrightarrow>
            \<not> is_valid (fst (on_failure acc (RetoolApiError e) ts)))"
proof -
  from run_operations_valid [OF assms(1)] assms(2,3)
  have still: "i < length (RETOOL_ACCOUNTS s')" "\<not> is_valid (RETOOL_ACCOUNTS s' ! i)"
    by auto
  then have "fst (getBestRetoolAccount (AVAILABLE_MODELS s') (RETOOL_ACCOUNTS s') modelId now) \<noteq> Some i"
    using getBestRetoolAccount_Some by blast
  with still on_failure_auth show ?thesis by blast
qed

theorem invalid_is_permanent_witness:
  "\<not> is_valid (RETOOL_ACCOUNTS example_state ! 0)
   \<and> (\<exists>s'. run_operations (\<lambda>_. [])
               [OpSelect ''gpt-4o-mini'' 500, OpChat example_request (failing_env 500)]
               example_state = Some s'
          \<and> \<not> is_valid (RETOOL_ACCOUNTS s' ! 0)
          \<and> fst (getBestRetoolAccount (AVAILABLE_MODELS s') (RETOOL_ACCOUNTS s')
                   ''gpt-4o-mini'' 1000000000) \<noteq> Some 0)
   \<and> \<not> is_valid
         (fst (on_failure (example_account ''two.retool.com'' True 0 0 [])
                 (RetoolApiError
                    (createRetoolError thread_create ''two.retool.com''
                       ''Create thread failed'' (Some 401) ''T''))
                 ''T''))"
proof -
  have "run_operations (\<lambda>_. [])
          [OpSelect ''gpt-4o-mini'' 500, OpChat example_request (failing_env 500)]
          example_state \<noteq> None"
    by code_simp
  then obtain s' where run: "run_operations (\<lambda>_. [])
          [OpSelect ''gpt-4o-mini'' 500, OpChat example_request (failing_env 500)]
          example_state = Some s'"
    by blast
  have bound: "0 < length (RETOOL_ACCOUNTS example_state)"
    and invalid: "\<not> is_valid (RETOOL_ACCOUNTS example_state ! 0)"
    by (simp_all add: example_state_def example_account_def)
  have auth: "statusCode (createRetoolError thread_create ''two.retool.com''
                ''Create thread failed'' (Some 401) ''T'') = Some 401"
    by (simp add: createRetoolError_def)
  from invalid_is_permanent [OF run bound invalid, of "''gpt-4o-mini''" 1000000000
      "createRetoolError thread_create ''two.retool.com'' ''Create thread failed'' (Some 401) ''T''"
      "example_account ''two.retool.com'' True 0 0 []" "''T''"]
    run invalid auth
  show ?thesis by simp
qed

section \<open>Polling for the result\<close>











section \<open>The model catalogue\<close>

lemma upper_letters: "map char_of [65..<91::nat] = ''ABCDEFGHIJKLMNOPQRSTUVWXYZ''"
  by code_simp

lemma lower_letters:
  "map (\<lambda>c. char_of (of_char c + (32::nat))) ''ABCDEFGHIJKLMNOPQRSTUVWXYZ''
     = ''abcdefghijklmnopqrstuvwxyz''"
  by code_simp

lemma upper_letter_iff:
  "(c \<in> set ''ABCDEFGHIJKLMNOPQRSTUVWXYZ'') = (65 \<le> (of_char c :: nat) \<and> (of_char c :: nat) \<le> 90)"
proof
  assume "c \<in> set ''ABCDEFGHIJKLMNOPQRSTUVWXYZ''"
  then have "c \<in> set (map char_of [65..<91::nat])" by (simp only: upper_letters)
  then have "c \<in> char_of ` {65..<91::nat}" by (simp only: set_map set_upt)
  then obtain n :: nat where "65 \<le> n" "n < 91" "c = char_of n" by auto
  then show "65 \<le> (of_char c :: nat) \<and> (of_char c :: nat) \<le> 90" by simp
next
  assume "65 \<le> (of_char c :: nat) \<and> (of_char c :: nat) \<le> 90"
  then have "(of_char c :: nat) \<in> {65..<91}" by auto
  then have "(of_char c :: nat) \<in> set [65..<91]" by (simp only: set_upt)
  then have "char_of (of_char c :: nat) \<in> set (map char_of [65..<91::nat])"
    unfolding set_map by (rule imageI)
  then show "c \<in> set ''ABCDEFGHIJKLMNOPQRSTUVWXYZ''" by (simp only: upper_letters char_of_char)
qed

lemma to_lower_char_ascii: "to_lower_char c = ascii_lower c"
proof -
  have "map_of (zip ''ABCDEFGHIJKLMNOPQRSTUVWXYZ'' ''abcdefghijklmnopqrstuvwxyz'') c
          = (if c \<in> set ''ABCDEFGHIJKLMNOPQRSTUVWXYZ''
             then Some (char_of (of_char c + (32::nat))) else None)"
    by (simp only: lower_letters [symmetric] map_of_zip_map)
  then show ?thesis
    by (simp only: upper_letter_iff to_lower_char_def ascii_lower_def Let_def)
      (simp split: if_splits)
qed

lemma toLowerCase_ascii: "toLowerCase s = map ascii_lower s"
  unfolding toLowerCase_def by (rule map_cong [OF refl]) (rule to_lower_char_ascii)

lemma set_first_occurrences: "set (first_occurrences xs) = set xs"
  by (simp add: first_occurrences_def)

lemma first_occurrences_snoc:
  "first_occurrences (xs @ [x]) =
     (if x \<in> set xs then first_occurrences xs else first_occurrences xs @ [x])"
  by (simp add: first_occurrences_def)

lemma catalog_entry_other:
  "series_of (full_name a) \<noteq> s \<Longrightarrow> catalog_entry s (ags @ [a]) = catalog_entry s ags"
  by (simp add: catalog_entry_def)

lemma catalog_entry_new:
  "series_of (full_name a) \<notin> set (map (\<lambda>ag. series_of (full_name ag)) ags) \<Longrightarrow>
   catalog_entry (series_of (full_name a)) (ags @ [a]) =
     \<lparr> m_id = series_of (full_name a), m_name = ag_name a, m_model_name = full_name a,
       m_owned_by = (if includes_str (toLowerCase (full_name a)) ''claude''
                     then ''anthropic'' else ''openai''),
       m_agents = [ag_id a] \<rparr>"
proof -
  assume "series_of (full_name a) \<notin> set (map (\<lambda>ag. series_of (full_name ag)) ags)"
  then have "filter (\<lambda>ag. series_of (full_name ag) = series_of (full_name a)) ags = []"
    by (auto simp: filter_empty_conv image_iff)
  then show ?thesis by (simp add: catalog_entry_def toLowerCase_ascii)
qed

lemma catalog_entry_known:
  "series_of (full_name a) \<in> set (map (\<lambda>ag. series_of (full_name ag)) ags) \<Longrightarrow>
   catalog_entry (series_of (full_name a)) (ags @ [a]) =
     (catalog_entry (series_of (full_name a)) ags)
       \<lparr> m_agents := m_agents (catalog_entry (series_of (full_name a)) ags) @ [ag_id a] \<rparr>"
proof -
  assume "series_of (full_name a) \<in> set (map (\<lambda>ag. series_of (full_name ag)) ags)"
  then have "filter (\<lambda>ag. series_of (full_name ag) = series_of (full_name a)) ags \<noteq> []"
    by (auto simp: filter_empty_conv image_iff)
  then show ?thesis by (simp add: catalog_entry_def Let_def)
qed

lemma map_of_keyed:
  "map_of (map (\<lambda>k. (k, f k)) ks) x = (if x \<in> set ks then Some (f x) else None)"
  by (induction ks) simp_all

lemma aggregate_fold:
  "foldl aggregate_step [] ags =
     map (\<lambda>s. (s, catalog_entry s ags))
       (first_occurrences (map (\<lambda>ag. series_of (full_name ag)) ags))"
proof (induction ags rule: rev_induct)
  case Nil
  show ?case by (simp add: first_occurrences_def)
next
  case (snoc a ags)
  let ?F = "\<lambda>ag. series_of (full_name ag)"
  let ?keys = "first_occurrences (map ?F ags)"
  let ?s = "?F a"
  let ?push = "\<lambda>(k, r). if k = ?s then (k, r\<lparr>m_agents := m_agents r @ [ag_id a]\<rparr>) else (k, r)"
  have keys: "set ?keys = set (map ?F ags)" by (rule set_first_occurrences)
  have others: "map ?push (map (\<lambda>s. (s, catalog_entry s ags)) ?keys)
                  = map (\<lambda>s. (s, catalog_entry s (ags @ [a]))) ?keys"
    if "?s \<notin> set (map ?F ags)"
    using that keys by (auto simp: catalog_entry_other image_iff)
  have same: "map ?push (map (\<lambda>s. (s, catalog_entry s ags)) ?keys)
                  = map (\<lambda>s. (s, catalog_entry s (ags @ [a]))) ?keys"
    if "?s \<in> set (map ?F ags)"
    using that by (auto simp: catalog_entry_known catalog_entry_other)
  show ?case
  proof (cases "?s \<in> set (map ?F ags)")
    case True
    then have "map_of (foldl aggregate_step [] ags) ?s = Some (catalog_entry ?s ags)"
      by (simp only: snoc.IH map_of_keyed keys if_True)
    then have "foldl aggregate_step [] (ags @ [a])
        = map ?push (map (\<lambda>s. (s, catalog_entry s ags)) ?keys)"
      by (simp add: aggregate_step_def Let_def snoc.IH)
    also note same [OF True]
    finally show ?thesis using True by (simp add: first_occurrences_snoc)
  next
    case False
    then have "map_of (foldl aggregate_step [] ags) ?s = None"
      by (simp only: snoc.IH map_of_keyed keys if_False)
    then have "foldl aggregate_step [] (ags @ [a])
        = map ?push (map (\<lambda>s. (s, catalog_entry s ags)) ?keys)
          @ [(?s, \<lparr> m_id = ?s, m_name = ag_name a, m_model_name = full_name a,
                    m_owned_by = (if includes_str (toLowerCase (full_name a)) ''claude''
                                  then ''anthropic'' else ''openai''),
                    m_agents = [ag_id a] \<rparr>)]"
      by (simp add: aggregate_step_def Let_def snoc.IH)
    also note others [OF False]
    finally show ?thesis using False
      by (simp add: first_occurrences_snoc catalog_entry_new)
  qed
qed

lemma aggregate_refines: "aggregate accs = catalog_spec (concat (map agents accs))"
  by (simp add: aggregate_def catalog_spec_def aggregate_fold o_def)


lemma split_on_not_Nil: "split_on c s \<noteq> []"
  by (induction s) (auto split: list.split)

lemma split_on_segment: "c \<notin> set a \<Longrightarrow> split_on c (a @ c # rest) = a # split_on c rest"
  by (induction a) (auto split: list.split)

lemma join_with_Cons:
  "ws \<noteq> [] \<Longrightarrow> join_with sep (w # ws) = w @ sep @ join_with sep ws"
  by (cases ws) simp_all

lemma join_split: "join_with [c] (split_on c s) = s"
proof (induction s)
  case Nil
  show ?case by simp
next
  case (Cons x xs)
  show ?case
  proof (cases "x = c")
    case True
    with Cons show ?thesis by (simp add: join_with_Cons split_on_not_Nil)
  next
    case False
    obtain w ws where parts: "split_on c xs = w # ws"
      using split_on_not_Nil [of c xs] by (cases "split_on c xs") auto
    with Cons have "join_with [c] (w # ws) = xs" by simp
    then have "join_with [c] ((x # w) # ws) = x # xs"
      by (cases ws) simp_all
    with False parts show ?thesis by simp
  qed
qed

lemma length_split_on: "length (split_on c s) = Suc (length (filter (\<lambda>x. x = c) s))"
  by (induction s) (auto split: list.split simp: split_on_not_Nil)

lemma series_of_truncates:
  assumes "CHR ''-'' \<notin> set a" "CHR ''-'' \<notin> set b" "CHR ''-'' \<notin> set c"
  shows "series_of (a @ ''-'' @ b @ ''-'' @ c @ ''-'' @ rest) = a @ ''-'' @ b @ ''-'' @ c"
proof -
  have "split_on CHR ''-'' (a @ CHR ''-'' # b @ CHR ''-'' # c @ CHR ''-'' # rest)
          = a # b # c # split_on CHR ''-'' rest"
    using assms by (simp add: split_on_segment)
  then show ?thesis by (simp add: series_of_def)
qed

lemma series_of_short:
  assumes "length (filter (\<lambda>x. x = CHR ''-'') n) \<le> 2"
  shows "series_of n = n"
proof -
  from assms have "length (split_on CHR ''-'' n) \<le> 3" by (simp add: length_split_on)
  then have "take 3 (split_on CHR ''-'' n) = split_on CHR ''-'' n" by simp
  then show ?thesis using join_split [of "CHR ''-''" n] by (simp add: series_of_def)
qed

lemma starts_with_iff: "starts_with s t = (\<exists>post. s = t @ post)"
  by (induction s t rule: starts_with.induct) auto

lemma includes_str_iff: "includes_str s t = (\<exists>pre post. s = pre @ t @ post)"
proof (induction s)
  case Nil
  show ?case by auto
next
  case (Cons x xs)
  have "(\<exists>pre post. x # xs = pre @ t @ post)
        = ((\<exists>post. x # xs = t @ post) \<or> (\<exists>pre post. xs = pre @ t @ post))"
  proof
    assume "\<exists>pre post. x # xs = pre @ t @ post"
    then obtain pre post where split: "x # xs = pre @ t @ post" by blast
    show "(\<exists>post. x # xs = t @ post) \<or> (\<exists>pre post. xs = pre @ t @ post)"
    proof (cases pre)
      case Nil
      with split show ?thesis by auto
    next
      case (Cons y pre')
      with split have "xs = pre' @ t @ post" by simp
      then show ?thesis by blast
    qed
  next
    assume "(\<exists>post. x # xs = t @ post) \<or> (\<exists>pre post. xs = pre @ t @ post)"
    then show "\<exists>pre post. x # xs = pre @ t @ post"
    proof
      assume "\<exists>post. x # xs = t @ post"
      then obtain post where "x # xs = [] @ t @ post" by auto
      then show ?thesis by blast
    next
      assume "\<exists>pre post. xs = pre @ t @ post"
      then obtain pre post where "x # xs = (x # pre) @ t @ post" by auto
      then show ?thesis by blast
    qed
  qed
  with Cons show ?case by (simp add: starts_with_iff)
qed

lemma agents_discover_account:
  "agents (discover_account acc r ts) =
     (case r of Replied status ags \<Rightarrow> if ok status then ags else [] | Threw _ \<Rightarrow> [])"
  by (cases r) (simp_all add: discover_account_def retoolQueryAgents_def Let_def)

lemma agents_initializeRetoolEnvironment:
  "map agents (fst (initializeRetoolEnvironment accs replies ts)) =
     map (\<lambda>i. case replies i of Replied status ags \<Rightarrow> if ok status then ags else []
                | Threw _ \<Rightarrow> [])
       [0..<length accs]"
  by (simp add: initializeRetoolEnvironment_def Let_def agents_discover_account o_def)

lemma catalogue_initializeRetoolEnvironment:
  "snd (initializeRetoolEnvironment accs replies ts) =
     catalog_spec
       (concat (map (\<lambda>i. case replies i of Replied status ags \<Rightarrow> if ok status then ags else []
                           | Threw _ \<Rightarrow> [])
                  [0..<length accs]))"
proof -
  have "snd (initializeRetoolEnvironment accs replies ts)
          = aggregate (fst (initializeRetoolEnvironment accs replies ts))"
    by (simp add: initializeRetoolEnvironment_def Let_def)
  also have "\<dots> = catalog_spec
      (concat (map agents (fst (initializeRetoolEnvironment accs replies ts))))"
    by (rule aggregate_refines)
  finally show ?thesis by (simp only: agents_initializeRetoolEnvironment)
qed

text \<open>
  Claim C7. The catalogue that start-up discovery installs is exactly the catalogue the
  specification describes, built from the agents the accounts' queries returned (an
  account whose query was refused or threw contributes none): agents are grouped by their
  model name cut to its first three hyphen-separated segments, one record per family in
  order of first appearance; the record's display name and full model name are those of
  the first agent of the family; its ownership tag is \<^verbatim>\<open>anthropic\<close> when that full
  model name contains \<^verbatim>\<open>claude\<close> in any mixture of capital and small letters and
  \<^verbatim>\<open>openai\<close> otherwise; and it lists the ids of all agents of the family. The cut
  keeps the first three segments of a name with more and leaves a name with at most two
  hyphens as it is; lower-casing turns \<^verbatim>\<open>A\<close> to \<^verbatim>\<open>Z\<close> into \<^verbatim>\<open>a\<close> to
  \<^verbatim>\<open>z\<close> and nothing else; containment is the presence of the word as a contiguous
  part. Two agents named \<^verbatim>\<open>anthropic-claude-3-opus-v2\<close> and
  \<^verbatim>\<open>anthropic-claude-3-opus-v3\<close> on different accounts fall into the one record
  \<^verbatim>\<open>anthropic-claude-3\<close>, which holds both ids.
\<close>

theorem catalog_groups_by_family:
  "snd (initializeRetoolEnvironment accs replies ts) =
     catalog_spec
       (concat (map (\<lambda>i. case replies i of
                             Replied status ags \<Rightarrow> if ok status then ags else []
                           | Threw _ \<Rightarrow> [])
                  [0..<length accs]))
   \<and> map agents (fst (initializeRetoolEnvironment accs replies ts)) =
       map (\<lambda>i. case replies i of
                   Replied status ags \<Rightarrow> if ok status then ags else []
                 | Threw _ \<Rightarrow> [])
         [0..<length accs]
   \<and> (CHR ''-'' \<notin> set a \<and> CHR ''-'' \<notin> set b \<and> CHR ''-'' \<notin> set c \<longrightarrow>
        series_of (a @ ''-'' @ b @ ''-'' @ c @ ''-'' @ rest) = a @ ''-'' @ b @ ''-'' @ c)
   \<and> (length (filter (\<lambda>x. x = CHR ''-'') n) \<le> 2 \<longrightarrow> series_of n = n)
   \<and> toLowerCase s =
       map (\<lambda>c. case map_of (zip ''ABCDEFGHIJKLMNOPQRSTUVWXYZ'' ''abcdefghijklmnopqrstuvwxyz'') c of
                   Some l \<Rightarrow> l
                 | None \<Rightarrow> c) s
   \<and> includes_str s t = (\<exists>pre post. s = pre @ t @ post)
   \<and> snd (initializeRetoolEnvironment example_fresh_accounts example_replies ts) =
       [\<lparr> m_id = ''anthropic-claude-3'', m_name = ''Opus'',
          m_model_name = ''anthropic-claude-3-opus-v2'', m_owned_by = ''anthropic'',
          m_agents = [''a1'', ''a2''] \<rparr>,
        \<lparr> m_id = ''GPT-4o-mini'', m_name = ''Mini'',
          m_model_name = ''GPT-4o-mini-2024-07-18'', m_owned_by = ''openai'',
          m_agents = [''a3''] \<rparr>,
        \<lparr> m_id = ''unknown'', m_name = ''Nameless'', m_model_name = ''unknown'',
          m_owned_by = ''openai'', m_agents = [''a4''] \<rparr>,
        \<lparr> m_id = ''Claude-Sonnet-4'', m_name = ''Sonnet'',
          m_model_name = ''Claude-Sonnet-4'', m_owned_by = ''anthropic'',
          m_agents = [''a5''] \<rparr>]"
proof -
  have "snd (initializeRetoolEnvironment example_fresh_accounts example_replies []) =
       [\<lparr> m_id = ''anthropic-claude-3'', m_name = ''Opus'',
          m_model_name = ''anthropic-claude-3-opus-v2'', m_owned_by = ''anthropic'',
          m_agents = [''a1'', ''a2''] \<rparr>,
        \<lparr> m_id = ''GPT-4o-mini'', m_name = ''Mini'',
          m_model_name = ''GPT-4o-mini-2024-07-18'', m_owned_by = ''openai'',
          m_agents = [''a3''] \<rparr>,
        \<lparr> m_id = ''unknown'', m_name = ''Nameless'', m_model_name = ''unknown'',
          m_owned_by = ''openai'', m_agents = [''a4''] \<rparr>,
        \<lparr> m_id = ''Claude-Sonnet-4'', m_name = ''Sonnet'',
          m_model_name = ''Claude-Sonnet-4'', m_owned_by = ''anthropic'',
          m_agents = [''a5''] \<rparr>]"
    by code_simp
  moreover have "snd (initializeRetoolEnvironment example_fresh_accounts example_replies ts)
      = snd (initializeRetoolEnvironment example_fresh_accounts example_replies [])"
    by (simp only: catalogue_initializeRetoolEnvironment)
  ultimately have example:
    "snd (initializeRetoolEnvironment example_fresh_accounts example_replies ts) =
       [\<lparr> m_id = ''anthropic-claude-3'', m_name = ''Opus'',
          m_model_name = ''anthropic-claude-3-opus-v2'', m_owned_by = ''anthropic'',
          m_agents = [''a1'', ''a2''] \<rparr>,
        \<lparr> m_id = ''GPT-4o-mini'', m_name = ''Mini'',
          m_model_name = ''GPT-4o-mini-2024-07-18'', m_owned_by = ''openai'',
          m_agents = [''a3''] \<rparr>,
        \<lparr> m_id = ''unknown'', m_name = ''Nameless'', m_model_name = ''unknown'',
          m_owned_by = ''openai'', m_agents = [''a4''] \<rparr>,
        \<lparr> m_id = ''Claude-Sonnet-4'', m_name = ''Sonnet'',
          m_model_name = ''Claude-Sonnet-4'', m_owned_by = ''anthropic'',
          m_agents = [''a5''] \<rparr>]"
    by (simp only:)
  have lower: "toLowerCase s =
       map (\<lambda>c. case map_of (zip ''ABCDEFGHIJKLMNOPQRSTUVWXYZ'' ''abcdefghijklmnopqrstuvwxyz'') c of
                   Some l \<Rightarrow> l
                 | None \<Rightarrow> c) s"
    using toLowerCase_ascii [of s] by (simp only: ascii_lower_def [abs_def])
  from catalogue_initializeRetoolEnvironment [of accs replies ts]
    agents_initializeRetoolEnvironment [of accs replies ts]
    series_of_truncates [of a b c rest] series_of_short [of n] lower
    includes_str_iff [of s t] example
  show ?thesis by blast
qed

theorem catalog_groups_by_family_witness:
  "series_of ''gpt-4o-mini-2024-07-18'' = ''gpt-4o-mini''
   \<and> series_of ''claude-3'' = ''claude-3''
   \<and> snd (initializeRetoolEnvironment example_fresh_accounts example_replies ''T'')
       = catalog_spec
           (concat (map (\<lambda>i. case example_replies i of
                                 Replied status ags \<Rightarrow> if ok status then ags else []
                               | Threw _ \<Rightarrow> [])
                      [0..<length example_fresh_accounts]))
   \<and> includes_str (toLowerCase ''Anthropic-CLAUDE-3-opus'') ''claude''"
proof -
  note catalogue =
    catalog_groups_by_family [of example_fresh_accounts example_replies "''T''" "''gpt''"
      "''4o''" "''mini''" "''2024-07-18''" "''claude-3''"
      "toLowerCase ''Anthropic-CLAUDE-3-opus''" "''claude''"]
  have "toLowerCase ''Anthropic-CLAUDE-3-opus'' = ''anthropic-'' @ ''claude'' @ ''-3-opus''"
    by code_simp
  then have "\<exists>pre post. toLowerCase ''Anthropic-CLAUDE-3-opus'' = pre @ ''claude'' @ post"
    by blast
  with catalogue have named: "includes_str (toLowerCase ''Anthropic-CLAUDE-3-opus'') ''claude''"
    by blast
  from catalogue have long: "series_of ''gpt-4o-mini-2024-07-18'' = ''gpt-4o-mini''"
    by simp
  from catalogue have short: "series_of ''claude-3'' = ''claude-3''"
    by simp
  from catalogue have "snd (initializeRetoolEnvironment example_fresh_accounts example_replies ''T'')
       = catalog_spec
           (concat (map (\<lambda>i. case example_replies i of
                                 Replied status ags \<Rightarrow> if ok status then ags else []
                               | Threw _ \<Rightarrow> [])
                      [0..<length example_fresh_accounts]))"
    by blast
  with named long short show ?thesis by blast
qed

end
